theory Spec2Isabelle
  imports Main "HOL-Library.AList"
begin

section \<open>The OPC UA nodeset parser\<close>

text \<open>
  A shallow embedding of \<^verbatim>\<open>NodesetParser\<close> (nodeset-parser.service.ts) and of
  \<^verbatim>\<open>FileImportServiceImpl.extractNamespaces\<close> (file-import.service.ts).

  The browser's \<^verbatim>\<open>DOMParser\<close> is not code of the repository. The embedding starts
  from the DOM tree that \<^verbatim>\<open>parseFromString\<close> returns: a document is given by its
  root element. For text that is not well-formed XML the browser returns a document that
  holds a \<^verbatim>\<open>parsererror\<close> element; this is what the source tests for, and it is what
  the model tests for. Comment nodes and processing instructions play no role in any
  function modelled here and are left out of the tree.

  A JavaScript string is a sequence of UTF-16 code units. It is modelled as a
  \<^typ>\<open>string\<close> whose characters are the code units \<open>U+0000\<close> to \<open>U+00FF\<close>, one
  \<^typ>\<open>char\<close> per code unit (not UTF-8 bytes): \<open>CHR 0xA0\<close> is the no-break space. Text
  with a code unit above \<open>U+00FF\<close> is outside the model. Letter case is that of ASCII, which
  is all that a search for the ASCII words \<^verbatim>\<open>event\<close> and \<^verbatim>\<open>interface\<close> can see.
\<close>

subsection \<open>Strings as the source uses them\<close>

text \<open>JavaScript truthiness of a string that may be \<^verbatim>\<open>null\<close>: present and not empty.\<close>

definition truthy :: "string option \<Rightarrow> bool" where
  "truthy v = (case v of None \<Rightarrow> False | Some s \<Rightarrow> s \<noteq> [])"

text \<open>\<^verbatim>\<open>a || b\<close> on strings.\<close>

definition orElse :: "string option \<Rightarrow> string \<Rightarrow> string" where
  "orElse v d = (case v of None \<Rightarrow> d | Some s \<Rightarrow> if s \<noteq> [] then s else d)"

text \<open>\<^verbatim>\<open>a || undefined\<close> on strings.\<close>

definition orUndefined :: "string option \<Rightarrow> string option" where
  "orUndefined v = (case v of None \<Rightarrow> None | Some s \<Rightarrow> if s \<noteq> [] then Some s else None)"

text \<open>
  The white space and line terminators of JavaScript, which \<^verbatim>\<open>trim\<close> and
  \<^verbatim>\<open>parseInt\<close> skip: tab, line feed, vertical tab, form feed, carriage return, space and
  no-break space. The others (\<open>U+1680\<close>, \<open>U+2000\<close> to \<open>U+200A\<close>, \<open>U+2028\<close>, \<open>U+2029\<close>,
  \<open>U+202F\<close>, \<open>U+205F\<close>, \<open>U+3000\<close>, \<open>U+FEFF\<close>) are above \<open>U+00FF\<close>.
\<close>

definition isWhite :: "char \<Rightarrow> bool" where
  "isWhite c = (c = CHR '' '' \<or> c = CHR 0x09 \<or> c = CHR 0x0A \<or> c = CHR 0x0B
                \<or> c = CHR 0x0C \<or> c = CHR 0x0D \<or> c = CHR 0xA0)"

text \<open>\<^verbatim>\<open>s.trim()\<close>\<close>

definition trim :: "string \<Rightarrow> string" where
  "trim s = rev (dropWhile isWhite (rev (dropWhile isWhite s)))"

fun startsWith :: "string \<Rightarrow> string \<Rightarrow> bool" where
  "startsWith s [] = True"
| "startsWith [] (p # ps) = False"
| "startsWith (c # cs) (p # ps) = (c = p \<and> startsWith cs ps)"

text \<open>\<^verbatim>\<open>s.includes(sub)\<close>: \<open>sub\<close> occurs in \<open>s\<close> as a contiguous substring.\<close>

fun includesStr :: "string \<Rightarrow> string \<Rightarrow> bool" where
  "includesStr [] sub = (sub = [])"
| "includesStr (c # cs) sub = (startsWith (c # cs) sub \<or> includesStr cs sub)"

definition lowerChar :: "char \<Rightarrow> char" where
  "lowerChar c =
     (case map_of (zip ''ABCDEFGHIJKLMNOPQRSTUVWXYZ'' ''abcdefghijklmnopqrstuvwxyz'') c of
        Some l \<Rightarrow> l
      | None \<Rightarrow> c)"

definition toLowerCase :: "string \<Rightarrow> string" where
  "toLowerCase s = map lowerChar s"

text \<open>\<^verbatim>\<open>s.split(c)\<close> for a one-character separator: never the empty array.\<close>

fun split :: "string \<Rightarrow> char \<Rightarrow> string list" where
  "split [] c = [[]]"
| "split (x # xs) c =
     (if x = c then [] # split xs c
      else (case split xs c of [] \<Rightarrow> [[x]] | p # ps \<Rightarrow> (x # p) # ps))"

text \<open>
  \<^verbatim>\<open>parseInt(s)\<close>: leading white space, an optional sign, an optional \<^verbatim>\<open>0x\<close> prefix,
  then the longest run of digits; \<^verbatim>\<open>NaN\<close> when there is no digit. The result is a
  double. \<open>Num v\<close> is the double that is exactly the integer \<open>v\<close>, which every integer up
  to \<open>2 ^ 53\<close> in magnitude is. \<open>Rounded v\<close> stands for the double that the platform returns
  when the digits denote the larger integer \<open>v\<close>: the rounding, and \<^verbatim>\<open>Infinity\<close>, are
  left to the platform. The sign of zero is not modelled.
\<close>

datatype jsnumber = Num int | Rounded int | NaN

definition digitVal :: "char \<Rightarrow> nat" where
  "digitVal c =
     (let n = (of_char c :: nat)
      in if 48 \<le> n \<and> n \<le> 57 then n - 48
         else if 97 \<le> n \<and> n \<le> 122 then n - 87
         else if 65 \<le> n \<and> n \<le> 90 then n - 55
         else 36)"

definition parseInt :: "string \<Rightarrow> jsnumber" where
  "parseInt s =
     (let s1 = dropWhile isWhite s;
          neg = (case s1 of [] \<Rightarrow> False | c # _ \<Rightarrow> c = CHR ''-'');
          s2 = (case s1 of [] \<Rightarrow> [] | c # r \<Rightarrow> if c = CHR ''-'' \<or> c = CHR ''+'' then r else s1);
          hex = (case s2 of a # b # _ \<Rightarrow> a = CHR ''0'' \<and> (b = CHR ''x'' \<or> b = CHR ''X'') | _ \<Rightarrow> False);
          radix = (if hex then 16 else 10);
          s3 = (if hex then drop 2 s2 else s2);
          ds = takeWhile (\<lambda>c. digitVal c < radix) s3;
          v = foldl (\<lambda>a c. a * int radix + int (digitVal c)) 0 ds;
          w = (if neg then - v else v)
      in if ds = [] then NaN else if v \<le> 2 ^ 53 then Num w else Rounded w)"

subsection \<open>The DOM tree\<close>

datatype xml =
    Element string "(string \<times> string) list" "xml list"
  | Text string

text \<open>The element itself and its descendant elements, in document order.\<close>

fun subtree :: "xml \<Rightarrow> xml list" where
  "subtree (Text s) = []"
| "subtree (Element t as cs) = Element t as cs # concat (map subtree cs)"

fun hasTag :: "string \<Rightarrow> xml \<Rightarrow> bool" where
  "hasTag n (Text s) = False"
| "hasTag n (Element t as cs) = (t = n)"

text \<open>
  \<^verbatim>\<open>element.querySelectorAll(tag)\<close> with a type selector: the descendants of the
  element (not the element itself) with that tag, in document order.
\<close>

fun querySelectorAll :: "xml \<Rightarrow> string \<Rightarrow> xml list" where
  "querySelectorAll (Text s) n = []"
| "querySelectorAll (Element t as cs) n = filter (hasTag n) (concat (map subtree cs))"

definition querySelector :: "xml \<Rightarrow> string \<Rightarrow> xml option" where
  "querySelector e n = (case querySelectorAll e n of [] \<Rightarrow> None | x # _ \<Rightarrow> Some x)"

text \<open>\<^verbatim>\<open>document.querySelector(tag)\<close>: the root element is a candidate too.\<close>

definition docQuerySelector :: "xml \<Rightarrow> string \<Rightarrow> xml option" where
  "docQuerySelector doc n = (case filter (hasTag n) (subtree doc) of [] \<Rightarrow> None | x # _ \<Rightarrow> Some x)"

fun getAttribute :: "xml \<Rightarrow> string \<Rightarrow> string option" where
  "getAttribute (Text s) n = None"
| "getAttribute (Element t as cs) n = map_of as n"

fun textContent :: "xml \<Rightarrow> string" where
  "textContent (Text s) = s"
| "textContent (Element t as cs) = concat (map textContent cs)"

subsection \<open>The data model (opcua.types.ts)\<close>

datatype NodeClass =
  Object | Variable | Method | ObjectType | VariableType | ReferenceType | DataType | View

record OpcUaReference =
  referenceType :: string
  isForward :: bool
  targetNodeId :: string

text \<open>
  \<open>children\<close> holds nodes by reference in the source. The node map is the store: a node
  object in the map is addressed by its key, and \<open>children\<close> is the list of the keys of
  the nodes it points to. The field \<^verbatim>\<open>type\<close> is called \<open>type'\<close>.
\<close>

record OpcUaNode =
  nodeId :: string
  browseName :: string
  displayName :: string
  nodeClass :: NodeClass
  description :: "string option"
  dataType :: "string option"
  valueRank :: "jsnumber option"
  modellingRule :: "string option"
  type' :: "string option"
  typeDefinition :: "string option"
  derivedFrom :: "string option"
  references :: "OpcUaReference list"
  children :: "string list"

text \<open>
  A JavaScript \<^verbatim>\<open>Map\<close> iterates in insertion order, and \<^verbatim>\<open>set\<close> on a key that is
  present replaces the value in place: an association list with \<^const>\<open>AList.update\<close>.
\<close>

type_synonym nodeMap = "(string \<times> OpcUaNode) list"

record OpcUaNodeset =
  fileName :: string
  namespaceUri :: string
  namespaceIndex :: nat
  nodes :: nodeMap
  rootNodes :: "OpcUaNode list"

record Namespace =
  index :: nat
  uri :: string

text \<open>The two private fields of a \<^verbatim>\<open>NodesetParser\<close> instance.\<close>

record parser =
  aliasMap :: "string \<rightharpoonup> string"
  nodeNameMap :: "string \<rightharpoonup> string"

text \<open>\<^verbatim>\<open>new NodesetParser()\<close>\<close>

definition newParser :: parser where
  "newParser = \<lparr>aliasMap = Map.empty, nodeNameMap = Map.empty\<rparr>"

datatype error = Error string

subsection \<open>Symbol resolution\<close>

definition resolveNodeId :: "parser \<Rightarrow> string \<Rightarrow> string" where
  "resolveNodeId p nid =
     (if nid = [] then []
      else case aliasMap p nid of Some a \<Rightarrow> a
      | None \<Rightarrow>
         (case nodeNameMap p nid of Some b \<Rightarrow> b
          | None \<Rightarrow>
             (let parts = split nid (CHR '':'')
              in orElse (if parts = [] then None else Some (parts ! (length parts - 1))) nid)))"

subsection \<open>Building the symbol table\<close>

text \<open>The body of the loop over the \<^verbatim>\<open>Alias\<close> elements.\<close>

definition addAlias :: "xml \<Rightarrow> parser \<Rightarrow> parser" where
  "addAlias alias p =
     (let aliasName = getAttribute alias ''Alias'';
          nid = trim (textContent alias)
      in if truthy aliasName \<and> nid \<noteq> []
         then p\<lparr>aliasMap := (aliasMap p)(nid \<mapsto> the aliasName)\<rparr> else p)"

definition parseAliases :: "parser \<Rightarrow> xml \<Rightarrow> parser" where
  "parseAliases p uaNodeSet =
     (case querySelector uaNodeSet ''Aliases'' of
        None \<Rightarrow> p
      | Some aliasesElement \<Rightarrow> fold addAlias (querySelectorAll aliasesElement ''Alias'') p)"

definition nodeTypes :: "string list" where
  "nodeTypes = [''UAObject'', ''UAVariable'', ''UAMethod'', ''UAObjectType'',
                ''UAVariableType'', ''UAReferenceType'', ''UADataType'', ''UAView'']"

text \<open>The body of the inner loop of \<open>parseNodeNames\<close>.\<close>

definition addNodeName :: "xml \<Rightarrow> parser \<Rightarrow> parser" where
  "addNodeName xmlNode p =
     (let nid = getAttribute xmlNode ''NodeId'';
          bn = getAttribute xmlNode ''BrowseName''
      in if truthy nid \<and> truthy bn
         then p\<lparr>nodeNameMap := (nodeNameMap p)(the nid \<mapsto> the bn)\<rparr> else p)"

definition parseNodeNames :: "parser \<Rightarrow> xml \<Rightarrow> parser" where
  "parseNodeNames p uaNodeSet =
     fold (\<lambda>nodeType q. fold addNodeName (querySelectorAll uaNodeSet nodeType) q) nodeTypes p"

subsection \<open>Extracting a node\<close>

definition getElementText :: "xml \<Rightarrow> string \<Rightarrow> string" where
  "getElementText parent tagName =
     (case querySelector parent tagName of
        None \<Rightarrow> []
      | Some element \<Rightarrow>
          (case querySelector element ''Text'' of
             Some textElement \<Rightarrow>
               if textContent textElement \<noteq> [] then trim (textContent textElement)
               else trim (textContent element)
           | None \<Rightarrow> trim (textContent element)))"

definition getNodeClass :: "string \<Rightarrow> NodeClass" where
  "getNodeClass nodeType =
     (case map_of [(''UAObject'', Object), (''UAVariable'', Variable), (''UAMethod'', Method),
                   (''UAObjectType'', ObjectType), (''UAVariableType'', VariableType),
                   (''UAReferenceType'', ReferenceType), (''UADataType'', DataType),
                   (''UAView'', View)] nodeType of
        Some c \<Rightarrow> c
      | None \<Rightarrow> Object)"

definition findDerivedFrom :: "OpcUaReference list \<Rightarrow> string option" where
  "findDerivedFrom refs =
     map_option targetNodeId
       (find (\<lambda>r. referenceType r = ''HasSubtype'' \<and> \<not> isForward r) refs)"

text \<open>The reference list of a node element: references with empty text are skipped.\<close>

definition addReference :: "xml \<Rightarrow> OpcUaReference list \<Rightarrow> OpcUaReference list" where
  "addReference r acc =
     (let target = trim (textContent r)
      in if target \<noteq> []
         then acc @ [\<lparr>referenceType = orElse (getAttribute r ''ReferenceType'') ''References'',
                      isForward = (getAttribute r ''IsForward'' \<noteq> Some ''false''),
                      targetNodeId = target\<rparr>]
         else acc)"

definition parseReferences :: "xml \<Rightarrow> OpcUaReference list" where
  "parseReferences xmlNode =
     (case querySelector xmlNode ''References'' of
        None \<Rightarrow> []
      | Some referencesElement \<Rightarrow>
          fold addReference (querySelectorAll referencesElement ''Reference'') [])"

definition parseNode :: "parser \<Rightarrow> xml \<Rightarrow> string \<Rightarrow> OpcUaNode option" where
  "parseNode p xmlNode nodeType =
     (let nid = getAttribute xmlNode ''NodeId''
      in if \<not> truthy nid then None
         else
           let dn = getElementText xmlNode ''DisplayName'';
               descr = getElementText xmlNode ''Description'';
               bn = orElse (getAttribute xmlNode ''BrowseName'') dn;
               refs = parseReferences xmlNode;
               dt = orUndefined (getAttribute xmlNode ''DataType'');
               valueRankStr = getAttribute xmlNode ''ValueRank'';
               vr = (if truthy valueRankStr then Some (parseInt (the valueRankStr)) else None);
               parentNodeId = orUndefined (getAttribute xmlNode ''ParentNodeId'');
               derivedFromId = findDerivedFrom refs;
               derivedFromName =
                 (if truthy derivedFromId then Some (resolveNodeId p (the derivedFromId)) else None);
               typeDefRef = find (\<lambda>r. referenceType r = ''HasTypeDefinition'' \<and> isForward r) refs;
               typeDefinitionName = map_option (\<lambda>r. resolveNodeId p (targetNodeId r)) typeDefRef;
               modellingRuleRef = find (\<lambda>r. referenceType r = ''HasModellingRule'' \<and> isForward r) refs;
               modellingRuleName = map_option (\<lambda>r. resolveNodeId p (targetNodeId r)) modellingRuleRef
           in Some \<lparr>nodeId = the nid,
                     browseName = bn,
                     displayName = dn,
                     nodeClass = getNodeClass nodeType,
                     description = Some descr,
                     dataType = map_option (resolveNodeId p) dt,
                     valueRank = vr,
                     modellingRule = modellingRuleName,
                     type' = map_option (resolveNodeId p) parentNodeId,
                     typeDefinition = typeDefinitionName,
                     derivedFrom = derivedFromName,
                     references = refs,
                     children = []\<rparr>)"

subsection \<open>The hierarchy builder\<close>

text \<open>\<^verbatim>\<open>node.children.push(childNode)\<close> for the node object stored under key \<open>k\<close>.\<close>

definition pushChild :: "nodeMap \<Rightarrow> string \<Rightarrow> string \<Rightarrow> nodeMap" where
  "pushChild store k c =
     map (\<lambda>(k', n). if k' = k then (k', n\<lparr>children := children n @ [c]\<rparr>) else (k', n)) store"

text \<open>The body of the loop over the references of the node stored under key \<open>k\<close>.\<close>

definition linkChild :: "string \<Rightarrow> OpcUaReference \<Rightarrow> nodeMap \<Rightarrow> nodeMap" where
  "linkChild k r store =
     (if (referenceType r = ''HasComponent'' \<or> referenceType r = ''Organizes''
          \<or> referenceType r = ''HasProperty'') \<and> isForward r
      then (case map_of store (targetNodeId r) of
              Some childNode \<Rightarrow> pushChild store k (targetNodeId r)
            | None \<Rightarrow> store)
      else store)"

definition buildHierarchy :: "nodeMap \<Rightarrow> nodeMap" where
  "buildHierarchy nds =
     fold (\<lambda>(k, node) store. fold (linkChild k) (references node) store) nds nds"

subsection \<open>The categorizer\<close>

definition createCategoryNode :: "string \<Rightarrow> NodeClass \<Rightarrow> OpcUaNode" where
  "createCategoryNode name cls =
     \<lparr>nodeId = ''Category_'' @ name, browseName = name, displayName = name, nodeClass = cls,
      description = None, dataType = None, valueRank = None, modellingRule = None,
      type' = None, typeDefinition = None, derivedFrom = None, references = [], children = []\<rparr>"

definition hasEventTypeReference :: "OpcUaNode \<Rightarrow> bool" where
  "hasEventTypeReference node =
     list_ex (\<lambda>r. referenceType r = ''HasSubtype'' \<and> includesStr (targetNodeId r) ''EventType'')
       (references node)"

definition hasInterfaceReference :: "OpcUaNode \<Rightarrow> bool" where
  "hasInterfaceReference node =
     list_ex (\<lambda>r. referenceType r = ''HasInterface''
                 \<or> (referenceType r = ''HasSubtype'' \<and> includesStr (targetNodeId r) ''Interface''))
       (references node)"

text \<open>The six category nodes while the node map is traversed.\<close>

record categories =
  dataTypesCategory :: OpcUaNode
  eventTypesCategory :: OpcUaNode
  interfaceTypesCategory :: OpcUaNode
  objectTypesCategory :: OpcUaNode
  referenceTypesCategory :: OpcUaNode
  variableTypesCategory :: OpcUaNode

definition push :: "OpcUaNode \<Rightarrow> string \<Rightarrow> OpcUaNode" where
  "push cat k = cat\<lparr>children := children cat @ [k]\<rparr>"

definition collect :: "string \<times> OpcUaNode \<Rightarrow> categories \<Rightarrow> categories" where
  "collect = (\<lambda>(k, node) cs.
     if nodeClass node = DataType then cs\<lparr>dataTypesCategory := push (dataTypesCategory cs) k\<rparr>
     else if nodeClass node = ReferenceType
       then cs\<lparr>referenceTypesCategory := push (referenceTypesCategory cs) k\<rparr>
     else if nodeClass node = VariableType
       then cs\<lparr>variableTypesCategory := push (variableTypesCategory cs) k\<rparr>
     else if nodeClass node = ObjectType
       then (let bn = toLowerCase (browseName node)
             in if includesStr bn ''event'' \<or> hasEventTypeReference node
                  then cs\<lparr>eventTypesCategory := push (eventTypesCategory cs) k\<rparr>
                else if includesStr bn ''interface'' \<or> hasInterfaceReference node
                  then cs\<lparr>interfaceTypesCategory := push (interfaceTypesCategory cs) k\<rparr>
                else cs\<lparr>objectTypesCategory := push (objectTypesCategory cs) k\<rparr>)
     else cs)"

definition addIfNonEmpty :: "OpcUaNode \<Rightarrow> OpcUaNode list \<Rightarrow> OpcUaNode list" where
  "addIfNonEmpty cat acc = (if length (children cat) > 0 then acc @ [cat] else acc)"

definition organizeIntoCategories :: "nodeMap \<Rightarrow> OpcUaNode list" where
  "organizeIntoCategories nds =
     (let cs = fold collect nds
                 \<lparr>dataTypesCategory = createCategoryNode ''DataTypes'' DataType,
                  eventTypesCategory = createCategoryNode ''EventTypes'' ObjectType,
                  interfaceTypesCategory = createCategoryNode ''InterfaceTypes'' ObjectType,
                  objectTypesCategory = createCategoryNode ''ObjectTypes'' ObjectType,
                  referenceTypesCategory = createCategoryNode ''ReferenceTypes'' ReferenceType,
                  variableTypesCategory = createCategoryNode ''VariableTypes'' VariableType\<rparr>
      in fold addIfNonEmpty
           [dataTypesCategory cs, eventTypesCategory cs, interfaceTypesCategory cs,
            objectTypesCategory cs, referenceTypesCategory cs, variableTypesCategory cs] [])"

subsection \<open>Processing a document\<close>

definition defaultNamespaceUri :: string where
  "defaultNamespaceUri = ''http://opcfoundation.org/UA/''"

definition extractNamespaceUri :: "xml \<Rightarrow> string" where
  "extractNamespaceUri uaNodeSet =
     (case querySelector uaNodeSet ''NamespaceUris'' of
        None \<Rightarrow> defaultNamespaceUri
      | Some namespaceUrisElement \<Rightarrow>
          (case querySelector namespaceUrisElement ''Uri'' of
             None \<Rightarrow> defaultNamespaceUri
           | Some uriElement \<Rightarrow>
               if textContent uriElement \<noteq> [] then textContent uriElement
               else defaultNamespaceUri))"

text \<open>The loop over the eight tags and, for each, over its elements in document order.\<close>

definition addNode :: "parser \<Rightarrow> string \<Rightarrow> xml \<Rightarrow> nodeMap \<Rightarrow> nodeMap" where
  "addNode p nodeType xmlNode m =
     (case parseNode p xmlNode nodeType of
        Some node \<Rightarrow> AList.update (nodeId node) node m
      | None \<Rightarrow> m)"

definition extractNodes :: "parser \<Rightarrow> xml \<Rightarrow> nodeMap" where
  "extractNodes p uaNodeSet =
     fold (\<lambda>nodeType nds. fold (addNode p nodeType) (querySelectorAll uaNodeSet nodeType) nds)
       nodeTypes []"

definition processNodeset :: "parser \<Rightarrow> xml \<Rightarrow> string \<Rightarrow> (error + OpcUaNodeset) \<times> parser" where
  "processNodeset p xmlDoc fname =
     (case docQuerySelector xmlDoc ''UANodeSet'' of
        None \<Rightarrow> (Inl (Error ''Invalid nodeset format: UANodeSet element not found''), p)
      | Some uaNodeSet \<Rightarrow>
          let nsUri = extractNamespaceUri uaNodeSet;
              p' = parseAliases p uaNodeSet;
              nds = buildHierarchy (extractNodes p' uaNodeSet);
              typeCategories = organizeIntoCategories nds
          in (Inr \<lparr>fileName = fname, namespaceUri = nsUri, namespaceIndex = 1,
                    nodes = nds, rootNodes = [] @ typeCategories\<rparr>, p'))"

text \<open>
  \<open>parseNodeset\<close> takes the parsed documents: \<open>xmlDoc\<close> is what the DOM parser returns
  for \<^verbatim>\<open>xmlContent\<close>, \<open>referenceDocs\<close> what it returns for each text of
  \<^verbatim>\<open>referenceNodesets\<close>. The result is the value of the promise (\<open>Inl\<close>: rejected with
  that error) and the parser instance as the call leaves it.
\<close>

definition addReferenceNodeset :: "xml \<Rightarrow> parser \<Rightarrow> parser" where
  "addReferenceNodeset refDoc p =
     (case docQuerySelector refDoc ''UANodeSet'' of
        Some refNodeSet \<Rightarrow> parseNodeNames (parseAliases p refNodeSet) refNodeSet
      | None \<Rightarrow> p)"

definition parseNodeset ::
  "parser \<Rightarrow> xml \<Rightarrow> string \<Rightarrow> xml list \<Rightarrow> (error + OpcUaNodeset) \<times> parser" where
  "parseNodeset p xmlDoc fname referenceDocs =
     (let p' = fold addReferenceNodeset referenceDocs p
      in case docQuerySelector xmlDoc ''parsererror'' of
           Some parserError \<Rightarrow>
             (Inl (Error (''Failed to parse XML: '' @ textContent parserError)), p')
         | None \<Rightarrow> processNodeset p' xmlDoc fname)"

subsection \<open>The namespace list (file-import.service.ts)\<close>

text \<open>
  \<^verbatim>\<open>querySelectorAll('UANodeSet > NamespaceUris > Uri')\<close> on the document: the
  \<^verbatim>\<open>Uri\<close> elements whose parent is a \<^verbatim>\<open>NamespaceUris\<close> element whose parent is a
  \<^verbatim>\<open>UANodeSet\<close> element, in document order. The traversal carries the tags of the
  parent and of the grandparent.
\<close>

fun selectUris :: "string option \<Rightarrow> string option \<Rightarrow> xml \<Rightarrow> xml list" where
  "selectUris g q (Text s) = []"
| "selectUris g q (Element t as cs) =
     (if t = ''Uri'' \<and> q = Some ''NamespaceUris'' \<and> g = Some ''UANodeSet''
      then [Element t as cs] else [])
     @ concat (map (selectUris q (Some t)) cs)"

text \<open>The body of the loop: \<open>i\<close> is the position of the element in the selected list.\<close>

definition addNamespace :: "xml \<times> nat \<Rightarrow> Namespace list \<Rightarrow> Namespace list" where
  "addNamespace = (\<lambda>(uriElement, i) namespaces.
     let u = trim (textContent uriElement)
     in if u \<noteq> [] then namespaces @ [\<lparr>index = i, uri = u\<rparr>] else namespaces)"

definition extractNamespaces :: "xml \<Rightarrow> Namespace list" where
  "extractNamespaces xmlDoc =
     (let uriElements = selectUris None None xmlDoc
      in fold addNamespace (zip uriElements [0 ..< length uriElements]) [])"

section \<open>Notions used to state the properties\<close>

subsection \<open>Parser instances that the program can hold\<close>

text \<open>
  The two maps are private: an instance is created with both empty and is changed by
  \<open>parseNodeset\<close> only.
\<close>

inductive reachable :: "parser \<Rightarrow> bool" where
  fresh: "reachable newParser"
| used: "reachable p \<Longrightarrow> reachable (snd (parseNodeset p xmlDoc fname referenceDocs))"

text \<open>
  No empty string is a key of either map: \<open>parseAliases\<close> and \<open>parseNodeNames\<close> insert
  a key only when it is truthy.
\<close>

definition keysNonEmpty :: "parser \<Rightarrow> bool" where
  "keysNonEmpty p = ([] \<notin> dom (aliasMap p) \<and> [] \<notin> dom (nodeNameMap p))"

text \<open>
  In the words of the specification: the substring of \<open>X\<close> after its last colon, when
  \<open>X\<close> has a colon.
\<close>

definition afterLastColon :: "string \<Rightarrow> string option" where
  "afterLastColon X =
     (if CHR '':'' \<in> set X then Some (rev (takeWhile (\<lambda>c. c \<noteq> CHR '':'') (rev X))) else None)"

subsection \<open>Hierarchy edges\<close>

text \<open>
  The references that the specification makes hierarchy edges: forward, and of one of
  three types.
\<close>

definition isHierarchyReference :: "OpcUaReference \<Rightarrow> bool" where
  "isHierarchyReference r =
     (referenceType r \<in> {''HasComponent'', ''Organizes'', ''HasProperty''} \<and> isForward r)"

text \<open>
  A hierarchy reference whose target is a key in \<open>K\<close>.
\<close>

definition linkable :: "string set \<Rightarrow> OpcUaReference \<Rightarrow> bool" where
  "linkable K r = (isHierarchyReference r \<and> targetNodeId r \<in> K)"

text \<open>
  The targets of the linkable references of a node, in the order of its reference list.
\<close>

definition hierarchyTargets :: "string set \<Rightarrow> OpcUaNode \<Rightarrow> string list" where
  "hierarchyTargets K A = map targetNodeId (filter (linkable K) (references A))"

text \<open>
  The store after the children \<open>cs\<close> have been appended to the node under key \<open>k\<close>.
\<close>

definition appendChildren :: "string \<Rightarrow> string list \<Rightarrow> nodeMap \<Rightarrow> nodeMap" where
  "appendChildren k cs store =
     map (\<lambda>(k', n). if k' = k then (k', n\<lparr>children := children n @ cs\<rparr>) else (k', n)) store"

subsection \<open>Categories\<close>

text \<open>
  The two heuristics as the categorizer evaluates them; neither looks at the direction of a
  reference.
\<close>

definition isEventType :: "OpcUaNode \<Rightarrow> bool" where
  "isEventType n =
     (includesStr (toLowerCase (browseName n)) ''event''
      \<or> (\<exists>r \<in> set (references n).
            referenceType r = ''HasSubtype'' \<and> includesStr (targetNodeId r) ''EventType''))"

definition isInterfaceType :: "OpcUaNode \<Rightarrow> bool" where
  "isInterfaceType n =
     (includesStr (toLowerCase (browseName n)) ''interface''
      \<or> (\<exists>r \<in> set (references n).
            referenceType r = ''HasInterface''
            \<or> (referenceType r = ''HasSubtype'' \<and> includesStr (targetNodeId r) ''Interface'')))"

text \<open>
  The name of the category a node belongs to, \<open>None\<close> for a node class that has no
  category. For an ObjectType node the first matching rule decides.
\<close>

definition categoryOf :: "OpcUaNode \<Rightarrow> string option" where
  "categoryOf n =
     (case nodeClass n of
        DataType \<Rightarrow> Some ''DataTypes''
      | ReferenceType \<Rightarrow> Some ''ReferenceTypes''
      | VariableType \<Rightarrow> Some ''VariableTypes''
      | ObjectType \<Rightarrow>
          Some (if isEventType n then ''EventTypes''
                else if isInterfaceType n then ''InterfaceTypes'' else ''ObjectTypes'')
      | _ \<Rightarrow> None)"

text \<open>
  The keys of the nodes of a category, in the order of the node map.
\<close>

definition members :: "string \<Rightarrow> nodeMap \<Rightarrow> string list" where
  "members name nds = map fst (filter (\<lambda>(k, n). categoryOf n = Some name) nds)"

text \<open>
  The six categories in their fixed order, each with the node class its category node
  carries.
\<close>

definition categoryTable :: "(string \<times> NodeClass) list" where
  "categoryTable = [(''DataTypes'', DataType), (''EventTypes'', ObjectType),
                    (''InterfaceTypes'', ObjectType), (''ObjectTypes'', ObjectType),
                    (''ReferenceTypes'', ReferenceType), (''VariableTypes'', VariableType)]"

text \<open>
  The category node of that name once the node map has been traversed.
\<close>

definition categoryNode :: "nodeMap \<Rightarrow> string \<times> NodeClass \<Rightarrow> OpcUaNode" where
  "categoryNode nds = (\<lambda>(name, cls). (createCategoryNode name cls)\<lparr>children := members name nds\<rparr>)"

text \<open>
  The six category nodes after the nodes of \<open>nds\<close> have been collected into them.
\<close>

definition withMembers :: "nodeMap \<Rightarrow> categories \<Rightarrow> categories" where
  "withMembers nds cs =
     \<lparr>dataTypesCategory = (dataTypesCategory cs)\<lparr>children := children (dataTypesCategory cs) @ members ''DataTypes'' nds\<rparr>,
      eventTypesCategory = (eventTypesCategory cs)\<lparr>children := children (eventTypesCategory cs) @ members ''EventTypes'' nds\<rparr>,
      interfaceTypesCategory = (interfaceTypesCategory cs)\<lparr>children := children (interfaceTypesCategory cs) @ members ''InterfaceTypes'' nds\<rparr>,
      objectTypesCategory = (objectTypesCategory cs)\<lparr>children := children (objectTypesCategory cs) @ members ''ObjectTypes'' nds\<rparr>,
      referenceTypesCategory = (referenceTypesCategory cs)\<lparr>children := children (referenceTypesCategory cs) @ members ''ReferenceTypes'' nds\<rparr>,
      variableTypesCategory = (variableTypesCategory cs)\<lparr>children := children (variableTypesCategory cs) @ members ''VariableTypes'' nds\<rparr>\<rparr>"

subsection \<open>The node elements of a document\<close>

text \<open>
  The recognized node elements below the \<^verbatim>\<open>UANodeSet\<close> element \<open>u\<close>, each with its tag,
  in the order in which \<open>processNodeset\<close> and \<open>parseNodeNames\<close> visit them: tag by tag, and
  in document order within a tag.
\<close>

definition allNodeElements :: "xml \<Rightarrow> (string \<times> xml) list" where
  "allNodeElements u = concat (map (\<lambda>nodeType. map (Pair nodeType) (querySelectorAll u nodeType)) nodeTypes)"

text \<open>
  The raw identifier of a node element: its \<^verbatim>\<open>NodeId\<close> attribute, the empty string when
  the attribute is missing.
\<close>

definition rawId :: "string \<times> xml \<Rightarrow> string" where
  "rawId = (\<lambda>(t, e). case getAttribute e ''NodeId'' of None \<Rightarrow> [] | Some i \<Rightarrow> i)"

definition hasId :: "string \<Rightarrow> string \<times> xml \<Rightarrow> bool" where
  "hasId i x = (rawId x = i)"

text \<open>
  The last element, in processing order, that carries the identifier \<open>i\<close>.
\<close>

definition lastWithId :: "string \<Rightarrow> (string \<times> xml) list \<Rightarrow> (string \<times> xml) option" where
  "lastWithId i es =
     (if filter (hasId i) es = [] then None else Some (last (filter (hasId i) es)))"

text \<open>
  The value \<open>processNodeset\<close> returns for the \<^verbatim>\<open>UANodeSet\<close> element \<open>u\<close> when the symbol
  table is \<open>q\<close>.
\<close>

definition successResult :: "parser \<Rightarrow> xml \<Rightarrow> string \<Rightarrow> OpcUaNodeset" where
  "successResult q u f =
     \<lparr>fileName = f, namespaceUri = extractNamespaceUri u, namespaceIndex = 1,
      nodes = buildHierarchy (extractNodes q u),
      rootNodes = organizeIntoCategories (buildHierarchy (extractNodes q u))\<rparr>"

text \<open>
  The document has an element with that tag, at any depth, the root included.
\<close>

definition occurs :: "string \<Rightarrow> xml \<Rightarrow> bool" where
  "occurs tag doc = list_ex (hasTag tag) (subtree doc)"

subsection \<open>Names contributed by reference documents\<close>

text \<open>
  The entry a node element adds to \<open>nodeNameMap\<close>: none unless both its \<^verbatim>\<open>NodeId\<close> and
  its \<^verbatim>\<open>BrowseName\<close> are present and not empty.
\<close>

definition namePair :: "string \<times> xml \<Rightarrow> (string \<times> string) list" where
  "namePair = (\<lambda>(t, e). if rawId (t, e) \<noteq> [] \<and> truthy (getAttribute e ''BrowseName'')
                        then [(rawId (t, e), orElse (getAttribute e ''BrowseName'') [])] else [])"

text \<open>
  The entries of one reference document, in processing order; none when the document has
  no \<^verbatim>\<open>UANodeSet\<close> element.
\<close>

definition referenceNames :: "xml \<Rightarrow> (string \<times> string) list" where
  "referenceNames refDoc =
     (case docQuerySelector refDoc ''UANodeSet'' of
        None \<Rightarrow> []
      | Some u \<Rightarrow> concat (map namePair (allNodeElements u)))"

subsection \<open>A result without its resolved names\<close>

text \<open>
  A node without the five fields that \<open>parseNode\<close> fills through \<open>resolveNodeId\<close>.
\<close>

definition eraseResolved :: "OpcUaNode \<Rightarrow> OpcUaNode" where
  "eraseResolved n =
     n\<lparr>dataType := None, modellingRule := None, type' := None, typeDefinition := None,
       derivedFrom := None\<rparr>"

definition eraseNodes :: "nodeMap \<Rightarrow> nodeMap" where
  "eraseNodes m = map (\<lambda>(k, n). (k, eraseResolved n)) m"

definition eraseNodeset :: "OpcUaNodeset \<Rightarrow> OpcUaNodeset" where
  "eraseNodeset r = r\<lparr>nodes := eraseNodes (nodes r)\<rparr>"

subsection \<open>Concrete nodes and documents\<close>

text \<open>
  A node with the given identifier, class, browse name and references, an empty display
  name and description, no other attribute and no child.
\<close>

definition nodeWith :: "string \<Rightarrow> NodeClass \<Rightarrow> string \<Rightarrow> OpcUaReference list \<Rightarrow> OpcUaNode" where
  "nodeWith nid cls bn refs =
     \<lparr>nodeId = nid, browseName = bn, displayName = [], nodeClass = cls, description = Some [],
      dataType = None, valueRank = None, modellingRule = None, type' = None,
      typeDefinition = None, derivedFrom = None, references = refs, children = []\<rparr>"

definition docObject :: xml where
  "docObject =
     Element ''UANodeSet'' []
       [Element ''UAObject'' [(''NodeId'', ''ns=1;i=1''), (''BrowseName'', ''Pump'')] []]"

definition docVariable :: xml where
  "docVariable =
     Element ''UANodeSet'' []
       [Element ''UAVariable''
          [(''NodeId'', ''ns=1;i=2''), (''BrowseName'', ''Level''), (''DataType'', ''i=6'')] []]"

definition docAlias :: xml where
  "docAlias =
     Element ''UANodeSet'' []
       [Element ''Aliases'' [] [Element ''Alias'' [(''Alias'', ''Int32'')] [Text ''i=6'']]]"

text \<open>
  Two elements with the same identifier. The \<^verbatim>\<open>UAVariable\<close> element comes first in the
  document and is processed last.
\<close>

definition docDuplicates :: xml where
  "docDuplicates =
     Element ''UANodeSet'' []
       [Element ''UAVariable'' [(''NodeId'', ''ns=1;i=1''), (''BrowseName'', ''Late'')] [],
        Element ''UAObject'' [(''NodeId'', ''ns=1;i=1''), (''BrowseName'', ''Early'')] []]"

definition docMixed :: xml where
  "docMixed =
     Element ''UANodeSet'' []
       [Element ''UADataType'' [(''NodeId'', ''ns=1;i=1''), (''BrowseName'', ''Celsius'')] [],
        Element ''UAObject'' [(''BrowseName'', ''NoId'')] [],
        Element ''UAObject'' [(''NodeId'', ''ns=1;i=2''), (''BrowseName'', ''Pump'')] []]"

definition docEmptyId :: xml where
  "docEmptyId =
     Element ''UANodeSet'' []
       [Element ''UAObject'' [(''NodeId'', ''''), (''BrowseName'', ''Pump'')] []]"

definition docEmptyIds :: xml where
  "docEmptyIds =
     Element ''UANodeSet'' []
       [Element ''UAObject'' [(''NodeId'', ''''), (''BrowseName'', ''Pump'')] [],
        Element ''UAVariable'' [(''NodeId'', ''''), (''BrowseName'', ''Level'')] []]"

text \<open>
  An object type whose only reference is a forward \<^verbatim>\<open>HasSubtype\<close> reference (no
  \<^verbatim>\<open>IsForward\<close> attribute) to an identifier that contains \<^verbatim>\<open>EventType\<close>.
\<close>

definition docEvent :: xml where
  "docEvent =
     Element ''UANodeSet'' []
       [Element ''UAObjectType'' [(''NodeId'', ''ns=1;i=1''), (''BrowseName'', ''Pump'')]
          [Element ''References'' []
             [Element ''Reference'' [(''ReferenceType'', ''HasSubtype'')]
                [Text ''ns=1;s=AlarmEventType'']]]]"

text \<open>
  A well-formed document whose root is not a \<^verbatim>\<open>UANodeSet\<close> element.
\<close>

definition docNested :: xml where
  "docNested = Element ''Envelope'' [] [Element ''UANodeSet'' [] []]"

text \<open>
  What a browser returns for text that is not well-formed XML.
\<close>

definition docParserError :: xml where
  "docParserError = Element ''parsererror'' [] [Text ''unclosed tag'']"

text \<open>
  A namespace table whose first \<^verbatim>\<open>Uri\<close> element is empty.
\<close>

definition docUris :: xml where
  "docUris =
     Element ''UANodeSet'' []
       [Element ''NamespaceUris'' []
          [Element ''Uri'' [] [], Element ''Uri'' [] [Text ''http://example.com/UA'']]]"

definition docTwoUris :: xml where
  "docTwoUris =
     Element ''UANodeSet'' []
       [Element ''NamespaceUris'' []
          [Element ''Uri'' [] [Text ''http://a.example/''],
           Element ''Uri'' [] [Text '' http://b.example/ '']]]"

section \<open>Evaluation on concrete documents\<close>

lemmas dom_defs = querySelector_def docQuerySelector_def truthy_def orElse_def orUndefined_def
  trim_def isWhite_def toLowerCase_def lowerChar_def

lemmas parse_defs = addAlias_def parseAliases_def addNodeName_def parseNodeNames_def nodeTypes_def
  getElementText_def getNodeClass_def findDerivedFrom_def addReference_def parseReferences_def
  parseNode_def resolveNodeId_def addNode_def extractNodes_def extractNamespaceUri_def
  defaultNamespaceUri_def processNodeset_def addReferenceNodeset_def parseNodeset_def newParser_def

lemmas graph_defs = pushChild_def linkChild_def buildHierarchy_def createCategoryNode_def
  hasEventTypeReference_def hasInterfaceReference_def push_def collect_def addIfNonEmpty_def
  organizeIntoCategories_def

lemmas doc_defs = docObject_def docVariable_def docAlias_def docDuplicates_def docMixed_def
  docEmptyId_def docEmptyIds_def docEvent_def docNested_def docParserError_def docUris_def
  docTwoUris_def nodeWith_def

lemma docObject_result:
  "fst (parseNodeset newParser docObject ''f.xml'' []) =
     Inr \<lparr>fileName = ''f.xml'', namespaceUri = ''http://opcfoundation.org/UA/'', namespaceIndex = 1,
          nodes = [(''ns=1;i=1'', nodeWith ''ns=1;i=1'' Object ''Pump'' [])],
          rootNodes = []\<rparr>"
  by (simp add: doc_defs dom_defs parse_defs graph_defs Let_def)

lemma docEvent_result:
  "fst (parseNodeset newParser docEvent ''f.xml'' []) =
     Inr \<lparr>fileName = ''f.xml'', namespaceUri = ''http://opcfoundation.org/UA/'', namespaceIndex = 1,
          nodes = [(''ns=1;i=1'',
                    nodeWith ''ns=1;i=1'' ObjectType ''Pump''
                      [\<lparr>referenceType = ''HasSubtype'', isForward = True,
                        targetNodeId = ''ns=1;s=AlarmEventType''\<rparr>])],
          rootNodes = [(createCategoryNode ''EventTypes'' ObjectType)\<lparr>children := [''ns=1;i=1'']\<rparr>]\<rparr>"
  by (simp add: doc_defs dom_defs parse_defs graph_defs Let_def)

lemma docMixed_result:
  "fst (parseNodeset newParser docMixed ''f.xml'' []) =
     Inr \<lparr>fileName = ''f.xml'', namespaceUri = ''http://opcfoundation.org/UA/'', namespaceIndex = 1,
          nodes = [(''ns=1;i=2'', nodeWith ''ns=1;i=2'' Object ''Pump'' []),
                   (''ns=1;i=1'', nodeWith ''ns=1;i=1'' DataType ''Celsius'' [])],
          rootNodes = [(createCategoryNode ''DataTypes'' DataType)\<lparr>children := [''ns=1;i=1'']\<rparr>]\<rparr>"
  by (simp add: doc_defs dom_defs parse_defs graph_defs Let_def)

lemma docDuplicates_result:
  "fst (parseNodeset newParser docDuplicates ''f.xml'' []) =
     Inr \<lparr>fileName = ''f.xml'', namespaceUri = ''http://opcfoundation.org/UA/'', namespaceIndex = 1,
          nodes = [(''ns=1;i=1'', nodeWith ''ns=1;i=1'' Variable ''Late'' [])],
          rootNodes = []\<rparr>"
  by (simp add: doc_defs dom_defs parse_defs graph_defs Let_def)

lemma docVariable_fresh:
  "fst (parseNodeset newParser docVariable ''b.xml'' []) =
     Inr \<lparr>fileName = ''b.xml'', namespaceUri = ''http://opcfoundation.org/UA/'', namespaceIndex = 1,
          nodes = [(''ns=1;i=2'', (nodeWith ''ns=1;i=2'' Variable ''Level'' [])\<lparr>dataType := Some ''i=6''\<rparr>)],
          rootNodes = []\<rparr>"
  by (simp add: doc_defs dom_defs parse_defs graph_defs Let_def)

lemma docVariable_used:
  "fst (parseNodeset (snd (parseNodeset newParser docAlias ''a.xml'' [])) docVariable ''b.xml'' []) =
     Inr \<lparr>fileName = ''b.xml'', namespaceUri = ''http://opcfoundation.org/UA/'', namespaceIndex = 1,
          nodes = [(''ns=1;i=2'', (nodeWith ''ns=1;i=2'' Variable ''Level'' [])\<lparr>dataType := Some ''Int32''\<rparr>)],
          rootNodes = []\<rparr>"
  by (simp add: doc_defs dom_defs parse_defs graph_defs Let_def)

lemma docEmptyIds_elements:
  "map rawId (allNodeElements docEmptyIds) = [[], []]"
  "map rawId (allNodeElements docEmptyId) = [[]]"
  "map rawId (allNodeElements docMixed) = [[], ''ns=1;i=2'', ''ns=1;i=1'']"
  "allNodeElements docDuplicates =
     [(''UAObject'', Element ''UAObject'' [(''NodeId'', ''ns=1;i=1''), (''BrowseName'', ''Early'')] []),
      (''UAVariable'', Element ''UAVariable'' [(''NodeId'', ''ns=1;i=1''), (''BrowseName'', ''Late'')] [])]"
  by (simp_all add: doc_defs allNodeElements_def nodeTypes_def rawId_def)

lemma doc_selectors:
  "docQuerySelector docMixed ''parsererror'' = None"
  "docQuerySelector docMixed ''UANodeSet'' = Some docMixed"
  "docQuerySelector docDuplicates ''parsererror'' = None"
  "docQuerySelector docDuplicates ''UANodeSet'' = Some docDuplicates"
  by (simp_all add: doc_defs docQuerySelector_def)

lemma referenceNames_docObject: "referenceNames docObject = [(''ns=1;i=1'', ''Pump'')]"
  by (simp add: referenceNames_def docObject_def docQuerySelector_def allNodeElements_def
        nodeTypes_def namePair_def rawId_def truthy_def orElse_def)

section \<open>Symbol resolution\<close>

lemma split_nonempty: "split X c \<noteq> []"
  by (induction X) (auto split: list.splits)

lemma split_no_sep: "c \<notin> set X \<Longrightarrow> split X c = [X]"
  by (induction X) auto

lemma split_sep: "c \<in> set X \<Longrightarrow> length (split X c) > 1"
  using split_nonempty[of _ c] by (induction X) (auto split: list.splits)

lemma takeWhile_no_sep:
  "c \<notin> set xs \<Longrightarrow> takeWhile (\<lambda>y. y \<noteq> c) (rev xs @ ys) = rev xs @ takeWhile (\<lambda>y. y \<noteq> c) ys"
  by (rule takeWhile_append2) auto

lemma last_split: "last (split X c) = rev (takeWhile (\<lambda>y. y \<noteq> c) (rev X))"
proof (induction X)
  case Nil show ?case by simp
next
  case (Cons x xs)
  show ?case
  proof (cases "c \<in> set xs")
    case True
    then show ?thesis using Cons split_nonempty[of xs c] split_sep[of c xs]
      by (auto split: list.splits)
  next
    case False
    then show ?thesis using split_no_sep[of c xs]
      by (auto simp: takeWhile_no_sep split: list.splits)
  qed
qed

lemma fold_inv: "(\<And>x s. P s \<Longrightarrow> P (f x s)) \<Longrightarrow> P s \<Longrightarrow> P (fold f xs s)"
  by (induction xs arbitrary: s) auto

lemma addAlias_keys: "keysNonEmpty p \<Longrightarrow> keysNonEmpty (addAlias a p)"
  by (auto simp: keysNonEmpty_def addAlias_def Let_def)

lemma parseAliases_keys: "keysNonEmpty p \<Longrightarrow> keysNonEmpty (parseAliases p u)"
  by (simp add: parseAliases_def fold_inv[where P = keysNonEmpty] addAlias_keys split: option.splits)

lemma addNodeName_keys: "keysNonEmpty p \<Longrightarrow> keysNonEmpty (addNodeName a p)"
  by (auto simp: keysNonEmpty_def addNodeName_def Let_def truthy_def split: option.splits)

lemma parseNodeNames_keys: "keysNonEmpty p \<Longrightarrow> keysNonEmpty (parseNodeNames p u)"
  unfolding parseNodeNames_def
  by (rule fold_inv[where P = keysNonEmpty]) (simp_all add: fold_inv[where P = keysNonEmpty] addNodeName_keys)

lemma addReferenceNodeset_keys: "keysNonEmpty p \<Longrightarrow> keysNonEmpty (addReferenceNodeset d p)"
  by (simp add: addReferenceNodeset_def parseNodeNames_keys parseAliases_keys split: option.splits)

lemma parseNodeset_keys: "keysNonEmpty p \<Longrightarrow> keysNonEmpty (snd (parseNodeset p d f rs))"
proof -
  assume "keysNonEmpty p"
  then have "keysNonEmpty (fold addReferenceNodeset rs p)"
    by (rule fold_inv[where P = keysNonEmpty, rotated]) (rule addReferenceNodeset_keys)
  then show ?thesis
    by (simp add: parseNodeset_def processNodeset_def Let_def parseAliases_keys split: option.splits)
qed

lemma reachable_keys: "reachable p \<Longrightarrow> keysNonEmpty p"
proof (induction rule: reachable.induct)
  case fresh
  show ?case by (simp add: newParser_def keysNonEmpty_def)
next
  case (used p xmlDoc fname referenceDocs)
  then show ?case by (simp add: parseNodeset_keys)
qed

text \<open>
  C1. For every nodeId string \<open>X\<close> and every parser instance the program can hold,
  \<open>resolveNodeId\<close> returns the alias-table entry of \<open>X\<close> if there is one; else the
  discovered name of \<open>X\<close> if there is one; else the substring of \<open>X\<close> after its last
  colon if \<open>X\<close> has a colon and that substring is not empty; else \<open>X\<close> unchanged. So an
  \<open>X\<close> present in both maps resolves to its alias.
\<close>

theorem resolveNodeId_priority:
  "reachable p \<Longrightarrow>
   resolveNodeId p X =
     (case aliasMap p X of
        Some a \<Rightarrow> a
      | None \<Rightarrow>
          (case nodeNameMap p X of
             Some b \<Rightarrow> b
           | None \<Rightarrow>
               (case afterLastColon X of
                  Some s \<Rightarrow> if s \<noteq> [] then s else X
                | None \<Rightarrow> X)))"
proof -
  assume "reachable p"
  then have k: "keysNonEmpty p" by (rule reachable_keys)
  show ?thesis
  proof (cases "X = []")
    case True
    then show ?thesis using k
      by (auto simp: resolveNodeId_def keysNonEmpty_def afterLastColon_def dom_def split: option.splits)
  next
    case False
    have "split X (CHR '':'') ! (length (split X (CHR '':'')) - 1) = last (split X (CHR '':''))"
      using split_nonempty[of X "CHR '':''"] by (simp add: last_conv_nth)
    then show ?thesis using False split_nonempty[of X "CHR '':''"] split_no_sep[of "CHR '':''" X]
      by (auto simp: resolveNodeId_def Let_def orElse_def last_split afterLastColon_def split: option.splits)
  qed
qed

theorem resolveNodeId_priority_witness:
  "reachable (snd (parseNodeset newParser
       (Element ''UANodeSet'' [] [Element ''Aliases'' [] [Element ''Alias'' [(''Alias'', ''Al'')] [Text ''i=1'']]])
       ''main.xml''
       [Element ''UANodeSet'' [] [Element ''UAObject'' [(''NodeId'', ''i=1''), (''BrowseName'', ''Name'')] []]]))
   \<and> resolveNodeId (snd (parseNodeset newParser
       (Element ''UANodeSet'' [] [Element ''Aliases'' [] [Element ''Alias'' [(''Alias'', ''Al'')] [Text ''i=1'']]])
       ''main.xml''
       [Element ''UANodeSet'' [] [Element ''UAObject'' [(''NodeId'', ''i=1''), (''BrowseName'', ''Name'')] []]])) ''i=1'' = ''Al''"
proof -
  let ?p = "snd (parseNodeset newParser
       (Element ''UANodeSet'' [] [Element ''Aliases'' [] [Element ''Alias'' [(''Alias'', ''Al'')] [Text ''i=1'']]])
       ''main.xml''
       [Element ''UANodeSet'' [] [Element ''UAObject'' [(''NodeId'', ''i=1''), (''BrowseName'', ''Name'')] []]])"
  have r: "reachable ?p" by (rule reachable.used[OF reachable.fresh])
  have a: "aliasMap ?p ''i=1'' = Some ''Al''"
    by (simp add: dom_defs parse_defs Let_def)
  have n: "nodeNameMap ?p ''i=1'' = Some ''Name''"
    by (simp add: dom_defs parse_defs Let_def)
  show ?thesis using r resolveNodeId_priority[OF r, of "''i=1''"] a by simp
qed

section \<open>The hierarchy builder\<close>

lemma appendChildren_keys [simp]: "map fst (appendChildren k cs S) = map fst S"
  by (induction S) (auto simp: appendChildren_def)

lemma appendChildren_keyset [simp]: "fst ` set (appendChildren k cs S) = fst ` set S"
  using appendChildren_keys[of k cs S] by (metis list.set_map)

lemma appendChildren_Nil [simp]: "appendChildren k [] S = S"
  by (induction S) (auto simp: appendChildren_def)

lemma appendChildren_twice [simp]:
  "appendChildren k b (appendChildren k a S) = appendChildren k (a @ b) S"
  by (induction S) (auto simp: appendChildren_def)

lemma map_of_None_keys: "(map_of S t = None) = (t \<notin> fst ` set S)"
  by (simp add: map_of_eq_None_iff)

lemma linkChild_append:
  "linkChild k r S =
     appendChildren k (if linkable (fst ` set S) r then [targetNodeId r] else []) S"
proof (cases "linkable (fst ` set S) r")
  case True
  then obtain a where "map_of S (targetNodeId r) = Some a"
    using map_of_None_keys[of S "targetNodeId r"] by (auto simp: linkable_def)
  then show ?thesis using True
    by (simp add: linkChild_def linkable_def isHierarchyReference_def pushChild_def appendChildren_def)
next
  case False
  then have "linkChild k r S = S"
    using map_of_None_keys[of S "targetNodeId r"]
    by (auto simp: linkChild_def linkable_def isHierarchyReference_def split: option.splits)
  then show ?thesis using False by simp
qed

lemma fold_linkChild:
  "fold (linkChild k) rs S =
     appendChildren k (map targetNodeId (filter (linkable (fst ` set S)) rs)) S"
proof (induction rs arbitrary: S)
  case Nil
  show ?case by simp
next
  case (Cons r rs)
  have "fold (linkChild k) (r # rs) S = fold (linkChild k) rs (linkChild k r S)" by simp
  also have "\<dots> = appendChildren k (map targetNodeId (filter (linkable (fst ` set (linkChild k r S))) rs))
                      (linkChild k r S)"
    by (rule Cons.IH)
  also have "\<dots> = appendChildren k (map targetNodeId (filter (linkable (fst ` set S)) (r # rs))) S"
    by (simp add: linkChild_append)
  finally show ?case .
qed

lemma fold_nodes_hierarchy:
  "distinct (map fst es) \<Longrightarrow>
   fold (\<lambda>(k, node) store. fold (linkChild k) (references node) store) es S =
     map (\<lambda>(k', n). (k', n\<lparr>children := children n @
            (case map_of es k' of None \<Rightarrow> [] | Some node \<Rightarrow> hierarchyTargets (fst ` set S) node)\<rparr>)) S"
proof (induction es arbitrary: S)
  case Nil
  show ?case by (simp add: map_idI)
next
  case (Cons e es)
  obtain k node where e: "e = (k, node)" by (cases e)
  from Cons.prems e have d: "distinct (map fst es)" and nk: "map_of es k = None"
    by (auto simp: map_of_eq_None_iff)
  let ?S' = "appendChildren k (hierarchyTargets (fst ` set S) node) S"
  have "fold (\<lambda>(k, node) store. fold (linkChild k) (references node) store) (e # es) S =
        fold (\<lambda>(k, node) store. fold (linkChild k) (references node) store) es ?S'"
    by (simp add: e fold_linkChild hierarchyTargets_def)
  also have "\<dots> = map (\<lambda>(k', n). (k', n\<lparr>children := children n @
            (case map_of es k' of None \<Rightarrow> [] | Some node \<Rightarrow> hierarchyTargets (fst ` set S) node)\<rparr>)) ?S'"
    using Cons.IH[OF d, of ?S'] by (simp only: appendChildren_keyset)
  also have "\<dots> = map (\<lambda>(k', n). (k', n\<lparr>children := children n @
            (case map_of (e # es) k' of None \<Rightarrow> [] | Some node \<Rightarrow> hierarchyTargets (fst ` set S) node)\<rparr>)) S"
    using nk by (auto simp: appendChildren_def e)
  finally show ?case .
qed

text \<open>
  C5. The hierarchy builder appends to the children of every node \<open>A\<close> of the node map
  the targets of those references of \<open>A\<close> that are of type HasComponent, Organizes or
  HasProperty, are forward, and whose target is a key of the node map, in the order of the
  reference list of \<open>A\<close>, and changes nothing else. So \<open>B\<close> is appended to the children of
  \<open>A\<close> exactly when \<open>A\<close> has such a reference to the key of \<open>B\<close>; a backward reference
  or a reference of another type adds no child. A child is the key of the node in the map,
  not a copy of the node. The keys of a \<^verbatim>\<open>Map\<close> are distinct.
\<close>

theorem buildHierarchy_children:
  assumes "distinct (map fst nds)"
  shows "buildHierarchy nds =
     map (\<lambda>(k, A). (k, A\<lparr>children := children A @
            map targetNodeId
              (filter (\<lambda>r. referenceType r \<in> {''HasComponent'', ''Organizes'', ''HasProperty''}
                          \<and> isForward r \<and> targetNodeId r \<in> fst ` set nds)
                      (references A))\<rparr>)) nds"
proof -
  have "buildHierarchy nds = map (\<lambda>(k', n). (k', n\<lparr>children := children n @
            (case map_of nds k' of None \<Rightarrow> [] | Some node \<Rightarrow> hierarchyTargets (fst ` set nds) node)\<rparr>)) nds"
    unfolding buildHierarchy_def by (rule fold_nodes_hierarchy[OF assms])
  also have "\<dots> = map (\<lambda>(k, A). (k, A\<lparr>children := children A @ hierarchyTargets (fst ` set nds) A\<rparr>)) nds"
    using assms by (intro map_cong) auto
  finally have closed: "buildHierarchy nds =
      map (\<lambda>(k, A). (k, A\<lparr>children := children A @ hierarchyTargets (fst ` set nds) A\<rparr>)) nds" .
  have l: "linkable (fst ` set nds) =
      (\<lambda>r. referenceType r \<in> {''HasComponent'', ''Organizes'', ''HasProperty''}
             \<and> isForward r \<and> targetNodeId r \<in> fst ` set nds)"
    by (auto simp: fun_eq_iff linkable_def isHierarchyReference_def)
  show ?thesis
    unfolding closed hierarchyTargets_def l ..
qed

theorem buildHierarchy_children_witness:
  "distinct (map fst
      [(''a'', nodeWith ''a'' Object ''A''
                 [\<lparr>referenceType = ''HasComponent'', isForward = True, targetNodeId = ''b''\<rparr>,
                  \<lparr>referenceType = ''Organizes'', isForward = False, targetNodeId = ''b''\<rparr>,
                  \<lparr>referenceType = ''HasProperty'', isForward = True, targetNodeId = ''missing''\<rparr>,
                  \<lparr>referenceType = ''HasTypeDefinition'', isForward = True, targetNodeId = ''b''\<rparr>,
                  \<lparr>referenceType = ''Organizes'', isForward = True, targetNodeId = ''a''\<rparr>]),
       (''b'', nodeWith ''b'' Variable ''B'' [])])
   \<and> map (\<lambda>(k, A). (k, children A))
        (buildHierarchy
          [(''a'', nodeWith ''a'' Object ''A''
                 [\<lparr>referenceType = ''HasComponent'', isForward = True, targetNodeId = ''b''\<rparr>,
                  \<lparr>referenceType = ''Organizes'', isForward = False, targetNodeId = ''b''\<rparr>,
                  \<lparr>referenceType = ''HasProperty'', isForward = True, targetNodeId = ''missing''\<rparr>,
                  \<lparr>referenceType = ''HasTypeDefinition'', isForward = True, targetNodeId = ''b''\<rparr>,
                  \<lparr>referenceType = ''Organizes'', isForward = True, targetNodeId = ''a''\<rparr>]),
           (''b'', nodeWith ''b'' Variable ''B'' [])])
       = [(''a'', [''b'', ''a'']), (''b'', [])]"
proof -
  let ?nds = "[(''a'', nodeWith ''a'' Object ''A''
                 [\<lparr>referenceType = ''HasComponent'', isForward = True, targetNodeId = ''b''\<rparr>,
                  \<lparr>referenceType = ''Organizes'', isForward = False, targetNodeId = ''b''\<rparr>,
                  \<lparr>referenceType = ''HasProperty'', isForward = True, targetNodeId = ''missing''\<rparr>,
                  \<lparr>referenceType = ''HasTypeDefinition'', isForward = True, targetNodeId = ''b''\<rparr>,
                  \<lparr>referenceType = ''Organizes'', isForward = True, targetNodeId = ''a''\<rparr>]),
               (''b'', nodeWith ''b'' Variable ''B'' [])]"
  have d: "distinct (map fst ?nds)" by simp
  show ?thesis using d buildHierarchy_children[OF d] by (simp add: nodeWith_def)
qed

section \<open>The categorizer in closed form\<close>

lemma hasEventTypeReference_iff:
  "hasEventTypeReference n = (\<exists>r \<in> set (references n).
            referenceType r = ''HasSubtype'' \<and> includesStr (targetNodeId r) ''EventType'')"
  by (simp add: hasEventTypeReference_def list_ex_iff)

lemma hasInterfaceReference_iff:
  "hasInterfaceReference n = (\<exists>r \<in> set (references n).
            referenceType r = ''HasInterface''
            \<or> (referenceType r = ''HasSubtype'' \<and> includesStr (targetNodeId r) ''Interface''))"
  by (simp add: hasInterfaceReference_def list_ex_iff)

lemma withMembers_Nil: "withMembers [] cs = cs"
  by (simp add: withMembers_def members_def)

lemma collect_withMembers: "collect (k, n) cs = withMembers [(k, n)] cs"
  by (cases "nodeClass n")
     (simp_all add: collect_def withMembers_def members_def categoryOf_def Let_def push_def
        isEventType_def isInterfaceType_def hasEventTypeReference_iff hasInterfaceReference_iff)

lemma members_Cons: "members name (e # nds) = members name [e] @ members name nds"
  by (simp add: members_def)

lemma withMembers_Cons: "withMembers nds (withMembers [e] cs) = withMembers (e # nds) cs"
  by (simp add: withMembers_def members_Cons[of _ e nds])

lemma fold_collect: "fold collect nds cs = withMembers nds cs"
proof (induction nds arbitrary: cs)
  case Nil
  show ?case by (simp add: withMembers_Nil)
next
  case (Cons e nds)
  obtain k n where e: "e = (k, n)" by (cases e)
  show ?case by (simp add: Cons e collect_withMembers withMembers_Cons)
qed

lemma fold_addIfNonEmpty:
  "fold addIfNonEmpty cs acc = acc @ filter (\<lambda>c. children c \<noteq> []) cs"
  by (induction cs arbitrary: acc) (simp_all add: addIfNonEmpty_def)

lemma createCategoryNode_children: "children (createCategoryNode name cls) = []"
  by (simp add: createCategoryNode_def)

lemma organizeIntoCategories_closed:
  "organizeIntoCategories nds =
     filter (\<lambda>c. children c \<noteq> []) (map (categoryNode nds) categoryTable)"
proof -
  define cs where "cs = withMembers nds
                 \<lparr>dataTypesCategory = createCategoryNode ''DataTypes'' DataType,
                  eventTypesCategory = createCategoryNode ''EventTypes'' ObjectType,
                  interfaceTypesCategory = createCategoryNode ''InterfaceTypes'' ObjectType,
                  objectTypesCategory = createCategoryNode ''ObjectTypes'' ObjectType,
                  referenceTypesCategory = createCategoryNode ''ReferenceTypes'' ReferenceType,
                  variableTypesCategory = createCategoryNode ''VariableTypes'' VariableType\<rparr>"
  have h: "map (categoryNode nds) categoryTable =
         [dataTypesCategory cs, eventTypesCategory cs, interfaceTypesCategory cs,
          objectTypesCategory cs, referenceTypesCategory cs, variableTypesCategory cs]"
    by (simp add: cs_def withMembers_def categoryTable_def categoryNode_def createCategoryNode_children)
  have "organizeIntoCategories nds =
        fold addIfNonEmpty [dataTypesCategory cs, eventTypesCategory cs, interfaceTypesCategory cs,
          objectTypesCategory cs, referenceTypesCategory cs, variableTypesCategory cs] []"
    unfolding organizeIntoCategories_def fold_collect Let_def cs_def ..
  then show ?thesis
    unfolding fold_addIfNonEmpty h by (simp only: append_Nil)
qed

section \<open>The node map\<close>

lemma truthy_rawId: "truthy (getAttribute e ''NodeId'') = (rawId (t, e) \<noteq> [])"
  by (simp add: truthy_def rawId_def split: option.splits)

lemma fold_concat_lists: "fold f (concat xss) = fold (fold f) xss"
  by (induction xss) simp_all

lemma extractNodes_fold:
  "extractNodes p u = fold (\<lambda>(t, e). addNode p t e) (allNodeElements u) []"
proof -
  have "(\<lambda>(t, e). addNode p t e) \<circ> Pair t = addNode p t" for t
    by (simp add: fun_eq_iff)
  then have "fold (\<lambda>(t, e). addNode p t e) (map (Pair t) es) = fold (addNode p t) es" for t es
    by (simp add: fold_map)
  then show ?thesis
    by (simp add: extractNodes_def allNodeElements_def fold_concat_lists fold_map comp_def)
qed

lemma parseNode_None: "\<not> truthy (getAttribute e ''NodeId'') \<Longrightarrow> parseNode p e t = None"
  by (simp add: parseNode_def)

lemma parseNode_Some:
  "truthy (getAttribute e ''NodeId'') \<Longrightarrow>
     \<exists>n. parseNode p e t = Some n \<and> rawId (t, e) = nodeId n \<and> nodeId n \<noteq> []"
  by (auto simp: parseNode_def Let_def truthy_def rawId_def split: option.splits)

lemma addNode_lookup:
  "map_of (addNode p t e m) i =
     (if i \<noteq> [] \<and> rawId (t, e) = i then parseNode p e t else map_of m i)"
proof (cases "truthy (getAttribute e ''NodeId'')")
  case True
  from parseNode_Some[OF True, of p t] obtain n where
    n: "parseNode p e t = Some n" "rawId (t, e) = nodeId n" "nodeId n \<noteq> []" by blast
  then show ?thesis
    by (auto simp: addNode_def update_conv')
next
  case False
  then show ?thesis using truthy_rawId[of e t]
    by (auto simp: addNode_def parseNode_None)
qed

lemma addNode_distinct: "distinct (map fst m) \<Longrightarrow> distinct (map fst (addNode p t e m))"
  by (simp add: addNode_def distinct_update split: option.splits)

lemma fold_addNode_distinct:
  "distinct (map fst m) \<Longrightarrow> distinct (map fst (fold (\<lambda>(t, e). addNode p t e) es m))"
  by (induction es arbitrary: m) (auto simp: addNode_distinct)

lemma lastWithId_snoc:
  "lastWithId i (es @ [x]) = (if hasId i x then Some x else lastWithId i es)"
  by (simp add: lastWithId_def)

lemma fold_addNode_lookup:
  "i \<noteq> [] \<Longrightarrow>
   map_of (fold (\<lambda>(t, e). addNode p t e) es []) i =
     (case lastWithId i es of None \<Rightarrow> None | Some (t, e) \<Rightarrow> parseNode p e t)"
proof (induction es rule: rev_induct)
  case Nil
  show ?case by (simp add: lastWithId_def)
next
  case (snoc x es)
  obtain t e where x: "x = (t, e)" by (cases x)
  show ?case using snoc
    by (simp add: x addNode_lookup lastWithId_snoc hasId_def)
qed

lemma fold_addNode_empty_key:
  "map_of (fold (\<lambda>(t, e). addNode p t e) es []) [] = None"
proof (induction es rule: rev_induct)
  case Nil
  show ?case by simp
next
  case (snoc x es)
  obtain t e where x: "x = (t, e)" by (cases x)
  show ?case using snoc by (simp add: x addNode_lookup)
qed

lemma extractNodes_distinct: "distinct (map fst (extractNodes p u))"
  by (simp add: extractNodes_fold fold_addNode_distinct)

lemma extractNodes_lookup:
  "map_of (extractNodes p u) i =
     (if i = [] then None
      else case lastWithId i (allNodeElements u) of None \<Rightarrow> None | Some (t, e) \<Rightarrow> parseNode p e t)"
  by (simp add: extractNodes_fold fold_addNode_lookup fold_addNode_empty_key)

lemma lastWithId_None: "(lastWithId i es = None) = (\<forall>x \<in> set es. \<not> hasId i x)"
  by (simp add: lastWithId_def filter_empty_conv)

lemma lastWithId_Some: "lastWithId i es = Some x \<Longrightarrow> x \<in> set es \<and> hasId i x"
proof -
  assume a: "lastWithId i es = Some x"
  then have ne: "filter (hasId i) es \<noteq> []" and "x = last (filter (hasId i) es)"
    by (auto simp: lastWithId_def split: if_splits)
  then have "x \<in> set (filter (hasId i) es)" using last_in_set by blast
  then show ?thesis by simp
qed

lemma extractNodes_keys:
  "fst ` set (extractNodes p u) =
     {i. i \<noteq> [] \<and> (\<exists>x \<in> set (allNodeElements u). hasId i x)}"
proof -
  have "i \<in> fst ` set (extractNodes p u) \<longleftrightarrow> i \<noteq> [] \<and> (\<exists>x \<in> set (allNodeElements u). hasId i x)" for i
  proof -
    have "i \<in> fst ` set (extractNodes p u) \<longleftrightarrow> map_of (extractNodes p u) i \<noteq> None"
      by (simp add: map_of_eq_None_iff)
    also have "\<dots> \<longleftrightarrow> i \<noteq> [] \<and> (\<exists>x \<in> set (allNodeElements u). hasId i x)"
    proof (cases "i = []")
      case True
      then show ?thesis by (simp add: extractNodes_lookup)
    next
      case False
      show ?thesis
      proof (cases "lastWithId i (allNodeElements u)")
        case None
        then show ?thesis using False lastWithId_None[of i "allNodeElements u"]
          by (simp add: extractNodes_lookup)
      next
        case (Some x)
        obtain t e where x: "x = (t, e)" by (cases x)
        from lastWithId_Some[OF Some] have m: "x \<in> set (allNodeElements u)" "hasId i x" by auto
        then have "truthy (getAttribute e ''NodeId'')" using False by (simp add: x hasId_def truthy_rawId[of e t])
        from parseNode_Some[OF this, of p t] show ?thesis using False Some m
          by (auto simp: extractNodes_lookup x)
      qed
    qed
    finally show ?thesis .
  qed
  then show ?thesis by blast
qed

lemma parseNodeset_ok:
  assumes "docQuerySelector doc ''parsererror'' = None"
      and "docQuerySelector doc ''UANodeSet'' = Some u"
  shows "parseNodeset p doc f refs =
           (Inr (successResult (parseAliases (fold addReferenceNodeset refs p) u) u f),
            parseAliases (fold addReferenceNodeset refs p) u)"
  using assms by (simp add: parseNodeset_def processNodeset_def successResult_def Let_def)

lemma parseNodeset_Inr:
  assumes "fst (parseNodeset p doc f refs) = Inr r"
  shows "\<exists>u. docQuerySelector doc ''parsererror'' = None \<and> docQuerySelector doc ''UANodeSet'' = Some u"
  using assms by (auto simp: parseNodeset_def processNodeset_def Let_def split: option.splits)

lemma map_of_map_values:
  "map_of (map (\<lambda>(k, v). (k, g k v)) m) i = map_option (g i) (map_of m i)"
  by (induction m) auto

lemma buildHierarchy_keys: "distinct (map fst nds) \<Longrightarrow> map fst (buildHierarchy nds) = map fst nds"
  by (simp add: buildHierarchy_children comp_def case_prod_unfold)

lemma buildHierarchy_lookup:
  "distinct (map fst nds) \<Longrightarrow>
   map_of (buildHierarchy nds) i =
     map_option (\<lambda>A. A\<lparr>children := children A @ hierarchyTargets (fst ` set nds) A\<rparr>) (map_of nds i)"
proof -
  assume d: "distinct (map fst nds)"
  have l: "(\<lambda>r. referenceType r \<in> {''HasComponent'', ''Organizes'', ''HasProperty''}
             \<and> isForward r \<and> targetNodeId r \<in> fst ` set nds) = linkable (fst ` set nds)"
    by (auto simp: fun_eq_iff linkable_def isHierarchyReference_def)
  show ?thesis
    unfolding buildHierarchy_children[OF d] l hierarchyTargets_def
    by (rule map_of_map_values)
qed

lemma one_entry:
  "distinct (map fst m) \<Longrightarrow> i \<in> fst ` set m \<Longrightarrow> length (filter (\<lambda>(k, n). k = i) m) = 1"
proof (induction m)
  case Nil
  then show ?case by simp
next
  case (Cons a m)
  obtain k v where a: "a = (k, v)" by (cases a)
  show ?case
  proof (cases "k = i")
    case True
    then have "i \<notin> fst ` set m" using Cons.prems a by auto
    then have "filter (\<lambda>(k, n). k = i) m = []" by (force simp: filter_empty_conv)
    then show ?thesis using True a by simp
  next
    case False
    then show ?thesis using Cons a by auto
  qed
qed

lemma nodes_keys:
  "map fst (buildHierarchy (extractNodes q u)) = map fst (extractNodes q u)"
  by (simp add: buildHierarchy_keys extractNodes_distinct)

lemma nodes_keyset:
  "fst ` set (buildHierarchy (extractNodes q u)) = rawId ` set (allNodeElements u) - {[]}"
proof -
  have "fst ` set (buildHierarchy (extractNodes q u)) = set (map fst (buildHierarchy (extractNodes q u)))"
    by simp
  also have "\<dots> = fst ` set (extractNodes q u)" unfolding nodes_keys by simp
  also have "\<dots> = rawId ` set (allNodeElements u) - {[]}"
    by (auto simp: extractNodes_keys hasId_def)
  finally show ?thesis .
qed

lemma nodes_count:
  assumes "distinct (filter (\<lambda>i. i \<noteq> []) (map rawId (allNodeElements u)))"
  shows "length (buildHierarchy (extractNodes q u)) =
           length (filter (\<lambda>i. i \<noteq> []) (map rawId (allNodeElements u)))"
proof -
  let ?ids = "filter (\<lambda>i. i \<noteq> []) (map rawId (allNodeElements u))"
  let ?ks = "map fst (buildHierarchy (extractNodes q u))"
  have d: "distinct ?ks" by (simp add: nodes_keys extractNodes_distinct)
  have "set ?ks = set ?ids" using nodes_keyset[of q u] by auto
  then have "card (set ?ks) = card (set ?ids)" by (rule arg_cong)
  moreover have "card (set ?ks) = length ?ks" using d by (rule distinct_card)
  moreover have "card (set ?ids) = length ?ids" using assms by (rule distinct_card)
  ultimately have "length ?ks = length ?ids" by (simp only:)
  then show ?thesis by (simp only: length_map)
qed

text \<open>
  C6, amended. When the main document has no \<^verbatim>\<open>parsererror\<close> element and \<open>u\<close> is its
  first \<^verbatim>\<open>UANodeSet\<close> element, \<open>parseNodeset\<close> returns a result, and in it: every
  recognized node element below \<open>u\<close> whose \<^verbatim>\<open>NodeId\<close> attribute is present and not
  empty has exactly one entry in the node map under that raw identifier; the keys of the
  node map are exactly these identifiers, so an element without the attribute, or with an
  empty one, appears nowhere; and when the non-empty identifiers are pairwise distinct the
  size of the node map is their number.
\<close>

theorem nodeMap_one_entry_per_id:
  assumes "docQuerySelector doc ''parsererror'' = None"
      and "docQuerySelector doc ''UANodeSet'' = Some u"
  shows "\<exists>r. fst (parseNodeset p doc f refs) = Inr r
           \<and> (\<forall>x \<in> set (allNodeElements u).
                 rawId x \<noteq> [] \<longrightarrow> length (filter (\<lambda>(k, n). k = rawId x) (nodes r)) = 1)
           \<and> fst ` set (nodes r) = rawId ` set (allNodeElements u) - {[]}
           \<and> (distinct (filter (\<lambda>i. i \<noteq> []) (map rawId (allNodeElements u))) \<longrightarrow>
                length (nodes r) = length (filter (\<lambda>i. i \<noteq> []) (map rawId (allNodeElements u))))"
proof -
  let ?q = "parseAliases (fold addReferenceNodeset refs p) u"
  let ?r = "successResult ?q u f"
  have r: "fst (parseNodeset p doc f refs) = Inr ?r"
    by (simp add: parseNodeset_ok[OF assms])
  have n: "nodes ?r = buildHierarchy (extractNodes ?q u)" by (simp add: successResult_def)
  have d: "distinct (map fst (nodes ?r))" by (simp add: n nodes_keys extractNodes_distinct)
  have ks: "fst ` set (nodes ?r) = rawId ` set (allNodeElements u) - {[]}"
    unfolding n by (rule nodes_keyset)
  have one: "\<forall>x \<in> set (allNodeElements u).
                 rawId x \<noteq> [] \<longrightarrow> length (filter (\<lambda>(k, n). k = rawId x) (nodes ?r)) = 1"
  proof (intro ballI impI)
    fix x assume "x \<in> set (allNodeElements u)" "rawId x \<noteq> []"
    then have "rawId x \<in> fst ` set (nodes ?r)" unfolding ks by simp
    then show "length (filter (\<lambda>(k, n). k = rawId x) (nodes ?r)) = 1"
      by (rule one_entry[OF d])
  qed
  have cnt: "distinct (filter (\<lambda>i. i \<noteq> []) (map rawId (allNodeElements u))) \<longrightarrow>
                length (nodes ?r) = length (filter (\<lambda>i. i \<noteq> []) (map rawId (allNodeElements u)))"
    unfolding n using nodes_count by blast
  show ?thesis using r one ks cnt by blast
qed

text \<open>
  C6 as stated fails for an element that carries an empty \<^verbatim>\<open>NodeId\<close> attribute: the
  guard \<^verbatim>\<open>if (!nodeId) return null\<close> discards it, and the node map stays empty.
\<close>

theorem nodeMap_one_entry_per_id_counterexample:
  "allNodeElements docEmptyId =
     [(''UAObject'', Element ''UAObject'' [(''NodeId'', ''''), (''BrowseName'', ''Pump'')] [])]
   \<and> getAttribute (Element ''UAObject'' [(''NodeId'', ''''), (''BrowseName'', ''Pump'')] []) ''NodeId''
       = Some ''''
   \<and> fst (parseNodeset newParser docEmptyId ''f.xml'' []) =
       Inr \<lparr>fileName = ''f.xml'', namespaceUri = ''http://opcfoundation.org/UA/'',
            namespaceIndex = 1, nodes = [], rootNodes = []\<rparr>"
  by (simp add: doc_defs allNodeElements_def dom_defs parse_defs graph_defs Let_def)

theorem nodeMap_one_entry_per_id_witness:
  "docQuerySelector docMixed ''parsererror'' = None
   \<and> docQuerySelector docMixed ''UANodeSet'' = Some docMixed
   \<and> map rawId (allNodeElements docMixed) = [[], ''ns=1;i=2'', ''ns=1;i=1'']
   \<and> (\<exists>r. fst (parseNodeset newParser docMixed ''f.xml'' []) = Inr r
          \<and> fst ` set (nodes r) = {''ns=1;i=2'', ''ns=1;i=1''}
          \<and> length (nodes r) = 2)"
proof -
  note h = doc_selectors(1,2)
  note ids = docEmptyIds_elements(3)
  from nodeMap_one_entry_per_id[OF h, of newParser "''f.xml''" "[]"] obtain r where
    r: "fst (parseNodeset newParser docMixed ''f.xml'' []) = Inr r"
    and ks: "fst ` set (nodes r) = rawId ` set (allNodeElements docMixed) - {[]}"
    and cnt: "distinct (filter (\<lambda>i. i \<noteq> []) (map rawId (allNodeElements docMixed))) \<longrightarrow>
                length (nodes r) = length (filter (\<lambda>i. i \<noteq> []) (map rawId (allNodeElements docMixed)))"
    by blast
  have "rawId ` set (allNodeElements docMixed) = set (map rawId (allNodeElements docMixed))" by simp
  then have "fst ` set (nodes r) = {''ns=1;i=2'', ''ns=1;i=1''}"
    unfolding ks ids by auto
  moreover have "length (nodes r) = 2" using cnt unfolding ids by simp
  ultimately show ?thesis using h ids r by blast
qed

section \<open>Duplicate identifiers\<close>

lemma parseNode_children: "parseNode p e t = Some n \<Longrightarrow> children n = []"
  by (auto simp: parseNode_def Let_def split: if_splits)

lemma lastWithId_last:
  "filter (\<lambda>x. rawId x = i) es \<noteq> [] \<Longrightarrow>
     lastWithId i es = Some (last (filter (\<lambda>x. rawId x = i) es))"
proof -
  have "hasId i = (\<lambda>x. rawId x = i)" by (simp add: fun_eq_iff hasId_def)
  then show "filter (\<lambda>x. rawId x = i) es \<noteq> [] \<Longrightarrow>
     lastWithId i es = Some (last (filter (\<lambda>x. rawId x = i) es))"
    by (simp add: lastWithId_def)
qed

text \<open>
  C10, amended. When several recognized node elements carry the same non-empty identifier
  \<open>i\<close>, \<open>parseNodeset\<close> returns a result whose node map has exactly one entry for \<open>i\<close>:
  the node that \<open>parseNode\<close> builds from the last of these elements in processing order
  (all \<^verbatim>\<open>UAObject\<close> elements in document order, then \<^verbatim>\<open>UAVariable\<close>, and so on), with
  its children filled in by the hierarchy builder.
\<close>

theorem duplicate_id_last_wins:
  assumes "docQuerySelector doc ''parsererror'' = None"
      and "docQuerySelector doc ''UANodeSet'' = Some u"
      and "i \<noteq> []"
      and "filter (\<lambda>x. rawId x = i) (allNodeElements u) \<noteq> []"
  shows "\<exists>r n. fst (parseNodeset p doc f refs) = Inr r
           \<and> length (filter (\<lambda>(k, n). k = i) (nodes r)) = 1
           \<and> map_of (nodes r) i = Some n
           \<and> parseNode (snd (parseNodeset p doc f refs))
                (snd (last (filter (\<lambda>x. rawId x = i) (allNodeElements u))))
                (fst (last (filter (\<lambda>x. rawId x = i) (allNodeElements u))))
               = Some (n\<lparr>children := []\<rparr>)"
proof -
  let ?q = "parseAliases (fold addReferenceNodeset refs p) u"
  let ?r = "successResult ?q u f"
  let ?dups = "filter (\<lambda>x. rawId x = i) (allNodeElements u)"
  obtain t e where x: "last ?dups = (t, e)" by (cases "last ?dups")
  have "last ?dups \<in> set ?dups" using assms(4) by (rule last_in_set)
  then have xi: "rawId (t, e) = i" using x by simp
  then have "truthy (getAttribute e ''NodeId'')" using assms(3) truthy_rawId[of e t] by simp
  from parseNode_Some[OF this, of ?q t] obtain n0 where n0: "parseNode ?q e t = Some n0" by blast
  have c0: "children n0 = []" using n0 by (rule parseNode_children)
  have pn: "parseNodeset p doc f refs = (Inr ?r, ?q)" by (rule parseNodeset_ok[OF assms(1,2)])
  have n: "nodes ?r = buildHierarchy (extractNodes ?q u)" by (simp add: successResult_def)
  have d: "distinct (map fst (nodes ?r))" by (simp add: n nodes_keys extractNodes_distinct)
  have e0: "map_of (extractNodes ?q u) i = Some n0"
    using assms(3) lastWithId_last[OF assms(4)] x n0 by (simp add: extractNodes_lookup)
  let ?n = "n0\<lparr>children := children n0 @ hierarchyTargets (fst ` set (extractNodes ?q u)) n0\<rparr>"
  have l: "map_of (nodes ?r) i = Some ?n"
    unfolding n by (simp add: buildHierarchy_lookup[OF extractNodes_distinct] e0)
  then have "i \<in> fst ` set (nodes ?r)" by (metis domI dom_map_of_conv_image_fst)
  then have one: "length (filter (\<lambda>(k, n). k = i) (nodes ?r)) = 1" by (rule one_entry[OF d])
  have strip: "?n\<lparr>children := []\<rparr> = n0" using c0 by simp
  have "parseNode (snd (parseNodeset p doc f refs)) (snd (last ?dups)) (fst (last ?dups)) = Some (?n\<lparr>children := []\<rparr>)"
    unfolding strip by (simp add: pn x n0)
  then show ?thesis using pn one l by (intro exI[of _ ?r] exI[of _ ?n]) simp
qed

text \<open>
  C10 as stated fails when the shared \<^verbatim>\<open>NodeId\<close> value is the empty string: both
  elements are discarded and the node map has no entry for it.
\<close>

theorem duplicate_id_last_wins_counterexample:
  "map (\<lambda>(t, e). getAttribute e ''NodeId'') (allNodeElements docEmptyIds) = [Some '''', Some '''']
   \<and> fst (parseNodeset newParser docEmptyIds ''f.xml'' []) =
       Inr \<lparr>fileName = ''f.xml'', namespaceUri = ''http://opcfoundation.org/UA/'',
            namespaceIndex = 1, nodes = [], rootNodes = []\<rparr>"
  by (simp add: doc_defs allNodeElements_def dom_defs parse_defs graph_defs Let_def)

theorem duplicate_id_last_wins_witness:
  "docQuerySelector docDuplicates ''parsererror'' = None
   \<and> docQuerySelector docDuplicates ''UANodeSet'' = Some docDuplicates
   \<and> last (filter (\<lambda>x. rawId x = ''ns=1;i=1'') (allNodeElements docDuplicates)) =
        (''UAVariable'',
         Element ''UAVariable'' [(''NodeId'', ''ns=1;i=1''), (''BrowseName'', ''Late'')] [])
   \<and> (\<exists>r n. fst (parseNodeset newParser docDuplicates ''f.xml'' []) = Inr r
          \<and> length (filter (\<lambda>(k, n). k = ''ns=1;i=1'') (nodes r)) = 1
          \<and> map_of (nodes r) ''ns=1;i=1'' = Some n
          \<and> browseName n = ''Late'' \<and> nodeClass n = Variable)"
proof -
  note h = doc_selectors(3,4)
  have l: "filter (\<lambda>x. rawId x = ''ns=1;i=1'') (allNodeElements docDuplicates) =
        [(''UAObject'', Element ''UAObject'' [(''NodeId'', ''ns=1;i=1''), (''BrowseName'', ''Early'')] []),
         (''UAVariable'', Element ''UAVariable'' [(''NodeId'', ''ns=1;i=1''), (''BrowseName'', ''Late'')] [])]"
    by (simp add: docEmptyIds_elements(4) rawId_def)
  have ne: "filter (\<lambda>x. rawId x = ''ns=1;i=1'') (allNodeElements docDuplicates) \<noteq> []"
    unfolding l by simp
  have i: "''ns=1;i=1'' \<noteq> []" by simp
  from duplicate_id_last_wins[OF h i ne, of newParser "''f.xml''" "[]"] obtain r n where
    r: "fst (parseNodeset newParser docDuplicates ''f.xml'' []) = Inr r"
    and one: "length (filter (\<lambda>(k, n). k = ''ns=1;i=1'') (nodes r)) = 1"
    and n: "map_of (nodes r) ''ns=1;i=1'' = Some n"
    and p: "parseNode (snd (parseNodeset newParser docDuplicates ''f.xml'' []))
                (snd (last (filter (\<lambda>x. rawId x = ''ns=1;i=1'') (allNodeElements docDuplicates))))
                (fst (last (filter (\<lambda>x. rawId x = ''ns=1;i=1'') (allNodeElements docDuplicates))))
               = Some (n\<lparr>children := []\<rparr>)"
    by blast
  have "parseNode (snd (parseNodeset newParser docDuplicates ''f.xml'' []))
          (Element ''UAVariable'' [(''NodeId'', ''ns=1;i=1''), (''BrowseName'', ''Late'')] [])
          ''UAVariable'' = Some (nodeWith ''ns=1;i=1'' Variable ''Late'' [])"
    by (simp add: doc_defs dom_defs parse_defs Let_def)
  then have "n\<lparr>children := []\<rparr> = nodeWith ''ns=1;i=1'' Variable ''Late'' []"
    using p unfolding l by simp
  then have "browseName (n\<lparr>children := []\<rparr>) = ''Late'' \<and> nodeClass (n\<lparr>children := []\<rparr>) = Variable"
    by (simp add: nodeWith_def)
  then have "browseName n = ''Late'' \<and> nodeClass n = Variable" by simp
  then show ?thesis using h l r one n by auto
qed

section \<open>The discovered names\<close>

lemma addAlias_names [simp]: "nodeNameMap (addAlias a p) = nodeNameMap p"
  by (simp add: addAlias_def Let_def)

lemma parseAliases_names [simp]: "nodeNameMap (parseAliases p u) = nodeNameMap p"
proof -
  have "nodeNameMap (fold addAlias es p) = nodeNameMap p" for es
    by (induction es arbitrary: p) simp_all
  then show ?thesis by (simp add: parseAliases_def split: option.splits)
qed

lemma addNodeName_names:
  "nodeNameMap (addNodeName e p) = nodeNameMap p ++ map_of (namePair (t, e))"
  by (auto simp: addNodeName_def namePair_def Let_def truthy_rawId[of e t] truthy_def rawId_def orElse_def
        split: option.splits)

lemma rev_namePair [simp]: "rev (namePair x) = namePair x"
  by (cases x) (simp add: namePair_def)

lemma fold_addNodeName_names:
  "nodeNameMap (fold addNodeName es p) =
     nodeNameMap p ++ map_of (rev (concat (map (\<lambda>e. namePair (t, e)) es)))"
proof (induction es arbitrary: p)
  case Nil
  show ?case by simp
next
  case (Cons e es)
  show ?case by (simp add: Cons addNodeName_names[of e _ t])
qed

lemma fold_fold_addNodeName_names:
  "nodeNameMap (fold (\<lambda>nodeType q. fold addNodeName (querySelectorAll u nodeType) q) ts p) =
     nodeNameMap p ++
     map_of (rev (concat (map namePair
                   (concat (map (\<lambda>nodeType. map (Pair nodeType) (querySelectorAll u nodeType)) ts)))))"
proof (induction ts arbitrary: p)
  case Nil
  show ?case by simp
next
  case (Cons t ts)
  have "map namePair (map (Pair t) es) = map (\<lambda>e. namePair (t, e)) es" for es by simp
  then show ?case
    by (simp add: Cons fold_addNodeName_names[of _ _ t] comp_def)
qed

lemma parseNodeNames_names:
  "nodeNameMap (parseNodeNames p u) =
     nodeNameMap p ++ map_of (rev (concat (map namePair (allNodeElements u))))"
  unfolding parseNodeNames_def allNodeElements_def by (rule fold_fold_addNodeName_names)

lemma addReferenceNodeset_names:
  "nodeNameMap (addReferenceNodeset d p) = nodeNameMap p ++ map_of (rev (referenceNames d))"
  by (simp add: addReferenceNodeset_def referenceNames_def parseNodeNames_names split: option.splits)

lemma fold_addReferenceNodeset_names:
  "nodeNameMap (fold addReferenceNodeset refs p) =
     nodeNameMap p ++ map_of (rev (concat (map referenceNames refs)))"
proof (induction refs arbitrary: p)
  case Nil
  show ?case by simp
next
  case (Cons d refs)
  show ?case by (simp add: Cons addReferenceNodeset_names)
qed

lemma parseNodeset_names:
  "nodeNameMap (snd (parseNodeset p doc f refs)) = nodeNameMap (fold addReferenceNodeset refs p)"
  by (simp add: parseNodeset_def processNodeset_def Let_def split: option.splits)

text \<open>
  C3, amended. After \<open>parseNodeset\<close>, \<open>nodeNameMap\<close> is the map the instance held before,
  overwritten with one entry from raw nodeId to browse name for every recognized node
  element of every reference document that has both attributes non-empty (the element
  processed last wins for an identifier that occurs twice). The node elements of the main
  document add no entry to \<open>nodeNameMap\<close>; they alone give the node map of the result its
  keys.
\<close>

theorem nodeNameMap_from_reference_documents:
  "nodeNameMap (snd (parseNodeset p doc f refs)) =
     nodeNameMap p ++ map_of (rev (concat (map referenceNames refs)))
   \<and> (\<forall>r. fst (parseNodeset p doc f refs) = Inr r \<longrightarrow>
         (\<exists>u. docQuerySelector doc ''UANodeSet'' = Some u
              \<and> fst ` set (nodes r) = rawId ` set (allNodeElements u) - {[]}))"
proof (intro conjI allI impI)
  show "nodeNameMap (snd (parseNodeset p doc f refs)) =
     nodeNameMap p ++ map_of (rev (concat (map referenceNames refs)))"
    by (simp only: parseNodeset_names fold_addReferenceNodeset_names)
next
  fix r assume a: "fst (parseNodeset p doc f refs) = Inr r"
  from parseNodeset_Inr[OF a] obtain u where
    u: "docQuerySelector doc ''parsererror'' = None" "docQuerySelector doc ''UANodeSet'' = Some u"
    by blast
  have "r = successResult (parseAliases (fold addReferenceNodeset refs p) u) u f"
    using a by (simp add: parseNodeset_ok[OF u])
  then have "fst ` set (nodes r) = rawId ` set (allNodeElements u) - {[]}"
    by (simp add: successResult_def nodes_keyset)
  then show "\<exists>u. docQuerySelector doc ''UANodeSet'' = Some u
              \<and> fst ` set (nodes r) = rawId ` set (allNodeElements u) - {[]}"
    using u by blast
qed

text \<open>
  C3 as stated fails: \<open>processNodeset\<close> calls \<open>parseAliases\<close> only, so the node element
  of the main document is in the node map of the result and not in \<open>nodeNameMap\<close>.
\<close>

theorem nodeNameMap_from_reference_documents_counterexample:
  "fst (parseNodeset newParser docObject ''f.xml'' []) =
     Inr \<lparr>fileName = ''f.xml'', namespaceUri = ''http://opcfoundation.org/UA/'', namespaceIndex = 1,
          nodes = [(''ns=1;i=1'', nodeWith ''ns=1;i=1'' Object ''Pump'' [])],
          rootNodes = []\<rparr>
   \<and> nodeNameMap (snd (parseNodeset newParser docObject ''f.xml'' [])) ''ns=1;i=1'' = None"
proof -
  have "nodeNameMap (snd (parseNodeset newParser docObject ''f.xml'' [])) ''ns=1;i=1'' = None"
    by (simp add: doc_defs dom_defs parse_defs Let_def)
  then show ?thesis using docObject_result by simp
qed

theorem nodeNameMap_from_reference_documents_witness:
  "(\<exists>r. fst (parseNodeset newParser docVariable ''b.xml'' [docObject]) = Inr r
        \<and> fst ` set (nodes r) = {''ns=1;i=2''})
   \<and> nodeNameMap (snd (parseNodeset newParser docVariable ''b.xml'' [docObject])) ''ns=1;i=1''
       = Some ''Pump''
   \<and> nodeNameMap (snd (parseNodeset newParser docVariable ''b.xml'' [docObject])) ''ns=1;i=2''
       = None"
proof -
  note t = nodeNameMap_from_reference_documents[of newParser docVariable "''b.xml''" "[docObject]"]
  have h: "docQuerySelector docVariable ''parsererror'' = None"
          "docQuerySelector docVariable ''UANodeSet'' = Some docVariable"
    by (simp_all add: doc_defs docQuerySelector_def)
  from parseNodeset_ok[OF h, of newParser "''b.xml''" "[docObject]"] obtain r where
    r: "fst (parseNodeset newParser docVariable ''b.xml'' [docObject]) = Inr r" by simp
  with t obtain u where u: "docQuerySelector docVariable ''UANodeSet'' = Some u"
    "fst ` set (nodes r) = rawId ` set (allNodeElements u) - {[]}" by blast
  then have "u = docVariable" using h by simp
  moreover have "map rawId (allNodeElements docVariable) = [''ns=1;i=2'']"
    by (simp add: doc_defs allNodeElements_def nodeTypes_def rawId_def)
  moreover have "rawId ` set (allNodeElements docVariable) = set (map rawId (allNodeElements docVariable))"
    by simp
  ultimately have k: "fst ` set (nodes r) = {''ns=1;i=2''}" using u(2) by auto
  from t have "nodeNameMap (snd (parseNodeset newParser docVariable ''b.xml'' [docObject])) =
      nodeNameMap newParser ++ map_of (rev (concat (map referenceNames [docObject])))" by blast
  then have "nodeNameMap (snd (parseNodeset newParser docVariable ''b.xml'' [docObject])) ''ns=1;i=1''
               = Some ''Pump''"
    and "nodeNameMap (snd (parseNodeset newParser docVariable ''b.xml'' [docObject])) ''ns=1;i=2''
               = None"
    by (simp_all add: referenceNames_docObject newParser_def)
  then show ?thesis using r k by blast
qed

section \<open>Failures\<close>

lemma docQuerySelector_None: "(docQuerySelector doc tag = None) = (\<not> occurs tag doc)"
proof -
  have "(filter (hasTag tag) (subtree doc) = []) = (\<not> occurs tag doc)"
    by (simp add: occurs_def list_ex_iff filter_empty_conv)
  then show ?thesis
    by (cases "filter (hasTag tag) (subtree doc)") (simp_all add: docQuerySelector_def)
qed

text \<open>
  C7, amended. \<open>parseNodeset\<close> fails with the message
  \<^verbatim>\<open>Invalid nodeset format: UANodeSet element not found\<close> exactly when the main document
  has no \<^verbatim>\<open>parsererror\<close> element and no \<^verbatim>\<open>UANodeSet\<close> element at any depth; it fails
  with the message \<^verbatim>\<open>Failed to parse XML: \<close> followed by the text of the first
  \<^verbatim>\<open>parsererror\<close> element when the document has such an element; and it returns a
  result exactly in the remaining case. A failure carries no result.
\<close>

theorem parseNodeset_failures:
  "((fst (parseNodeset p doc f refs) =
       Inl (Error ''Invalid nodeset format: UANodeSet element not found''))
     \<longleftrightarrow> (\<not> occurs ''parsererror'' doc \<and> \<not> occurs ''UANodeSet'' doc))
   \<and> (occurs ''parsererror'' doc \<longrightarrow>
        (\<exists>parserError. docQuerySelector doc ''parsererror'' = Some parserError
           \<and> fst (parseNodeset p doc f refs) =
               Inl (Error (''Failed to parse XML: '' @ textContent parserError))))
   \<and> ((\<exists>r. fst (parseNodeset p doc f refs) = Inr r)
     \<longleftrightarrow> (\<not> occurs ''parsererror'' doc \<and> occurs ''UANodeSet'' doc))"
proof (cases "docQuerySelector doc ''parsererror''")
  case (Some pe)
  then have o: "occurs ''parsererror'' doc" using docQuerySelector_None[of doc "''parsererror''"] by simp
  have "fst (parseNodeset p doc f refs) = Inl (Error (''Failed to parse XML: '' @ textContent pe))"
    using Some by (simp add: parseNodeset_def Let_def)
  then show ?thesis using o Some by simp
next
  case None
  then have o: "\<not> occurs ''parsererror'' doc" using docQuerySelector_None[of doc "''parsererror''"] by simp
  show ?thesis
  proof (cases "docQuerySelector doc ''UANodeSet''")
    case n: None
    then have "\<not> occurs ''UANodeSet'' doc" using docQuerySelector_None[of doc "''UANodeSet''"] by simp
    moreover have "fst (parseNodeset p doc f refs) =
        Inl (Error ''Invalid nodeset format: UANodeSet element not found'')"
      using None n by (simp add: parseNodeset_def processNodeset_def Let_def)
    ultimately show ?thesis using o by simp
  next
    case (Some u)
    then have "occurs ''UANodeSet'' doc" using docQuerySelector_None[of doc "''UANodeSet''"] by simp
    then show ?thesis using o parseNodeset_ok[OF None Some, of p f refs] by simp
  qed
qed

text \<open>
  C7 as stated fails for a well-formed document whose root is not a \<^verbatim>\<open>UANodeSet\<close>
  element but which has one below the root: \<^verbatim>\<open>querySelector\<close> finds it and the call
  returns a result.
\<close>

theorem parseNodeset_failures_counterexample:
  "\<not> hasTag ''UANodeSet'' docNested
   \<and> \<not> occurs ''parsererror'' docNested
   \<and> fst (parseNodeset newParser docNested ''f.xml'' []) =
       Inr \<lparr>fileName = ''f.xml'', namespaceUri = ''http://opcfoundation.org/UA/'',
            namespaceIndex = 1, nodes = [], rootNodes = []\<rparr>"
  by (simp add: doc_defs occurs_def dom_defs parse_defs graph_defs Let_def)

theorem parseNodeset_failures_witness:
  "occurs ''parsererror'' docParserError
   \<and> fst (parseNodeset newParser docParserError ''f.xml'' []) =
       Inl (Error ''Failed to parse XML: unclosed tag'')
   \<and> \<not> occurs ''parsererror'' (Element ''Invalid'' [] [Text ''Not a valid nodeset''])
   \<and> \<not> occurs ''UANodeSet'' (Element ''Invalid'' [] [Text ''Not a valid nodeset''])
   \<and> fst (parseNodeset newParser (Element ''Invalid'' [] [Text ''Not a valid nodeset'']) ''f.xml'' []) =
       Inl (Error ''Invalid nodeset format: UANodeSet element not found'')"
proof -
  have o: "occurs ''parsererror'' docParserError" by (simp add: occurs_def docParserError_def)
  have q: "docQuerySelector docParserError ''parsererror'' = Some docParserError"
    by (simp add: docQuerySelector_def docParserError_def)
  from parseNodeset_failures[of newParser docParserError "''f.xml''" "[]"] o q
  have a: "fst (parseNodeset newParser docParserError ''f.xml'' []) =
             Inl (Error (''Failed to parse XML: '' @ textContent docParserError))" by auto
  have n: "\<not> occurs ''parsererror'' (Element ''Invalid'' [] [Text ''Not a valid nodeset''])"
          "\<not> occurs ''UANodeSet'' (Element ''Invalid'' [] [Text ''Not a valid nodeset''])"
    by (simp_all add: occurs_def)
  from parseNodeset_failures[of newParser "Element ''Invalid'' [] [Text ''Not a valid nodeset'']" "''f.xml''" "[]"] n
  have b: "fst (parseNodeset newParser (Element ''Invalid'' [] [Text ''Not a valid nodeset'']) ''f.xml'' []) =
       Inl (Error ''Invalid nodeset format: UANodeSet element not found'')" by blast
  show ?thesis using o a n b by (simp add: docParserError_def)
qed

section \<open>The namespace list\<close>

lemma fold_addNamespace:
  "fold addNamespace xs acc =
     acc @ map (\<lambda>(e, i). \<lparr>index = i, uri = trim (textContent e)\<rparr>)
             (filter (\<lambda>(e, i). trim (textContent e) \<noteq> []) xs)"
  by (induction xs arbitrary: acc) (auto simp: addNamespace_def Let_def)

text \<open>
  White space alone counts as no text: a no-break space, and a space, are trimmed away, and
  the element after them keeps its position as index.
\<close>

lemma extractNamespaces_blank_text:
  "extractNamespaces
     (Element ''UANodeSet'' []
        [Element ''NamespaceUris'' []
           [Element ''Uri'' [] [Text [CHR 0xA0]],
            Element ''Uri'' [] [Text '' ''],
            Element ''Uri'' [] [Text ''http://example.com/UA'']]])
     = [\<lparr>index = 2, uri = ''http://example.com/UA''\<rparr>]"
  by (simp add: extractNamespaces_def addNamespace_def trim_def isWhite_def Let_def upt_rec)

lemma trim_no_break_space: "trim (CHR 0xA0 # ''u'' @ [CHR 0xA0]) = ''u''"
  by (simp add: trim_def isWhite_def)

text \<open>
  C9, amended. \<open>extractNamespaces\<close> returns, in document order, one entry for every
  \<^verbatim>\<open>UANodeSet > NamespaceUris > Uri\<close> element whose text, trimmed of white space, is not
  empty; the entry holds the trimmed text, and its index is the position of its element
  among all the selected elements. When the trimmed text of every selected element is not
  empty there is one entry per element and the indices are \<open>0, 1, 2, \<dots>\<close>, the positions
  in the returned list.
\<close>

theorem extractNamespaces_entries:
  "extractNamespaces doc =
     map (\<lambda>(e, i). \<lparr>index = i, uri = trim (textContent e)\<rparr>)
       (filter (\<lambda>(e, i). trim (textContent e) \<noteq> [])
          (zip (selectUris None None doc) [0 ..< length (selectUris None None doc)]))
   \<and> ((\<forall>e \<in> set (selectUris None None doc). trim (textContent e) \<noteq> []) \<longrightarrow>
         length (extractNamespaces doc) = length (selectUris None None doc)
         \<and> map index (extractNamespaces doc) = [0 ..< length (extractNamespaces doc)])"
proof (intro conjI impI)
  let ?us = "selectUris None None doc"
  let ?zs = "zip ?us [0 ..< length ?us]"
  show closed: "extractNamespaces doc =
     map (\<lambda>(e, i). \<lparr>index = i, uri = trim (textContent e)\<rparr>)
       (filter (\<lambda>(e, i). trim (textContent e) \<noteq> []) ?zs)"
    by (simp add: extractNamespaces_def Let_def fold_addNamespace)
  assume all: "\<forall>e \<in> set ?us. trim (textContent e) \<noteq> []"
  have "\<forall>z \<in> set ?zs. (\<lambda>(e, i). trim (textContent e) \<noteq> []) z"
    using all by (auto dest: set_zip_leftD)
  then have "filter (\<lambda>(e, i). trim (textContent e) \<noteq> []) ?zs = ?zs"
    by (simp only: filter_id_conv)
  then have e: "extractNamespaces doc = map (\<lambda>(e, i). \<lparr>index = i, uri = trim (textContent e)\<rparr>) ?zs"
    using closed by simp
  show len: "length (extractNamespaces doc) = length ?us" by (simp add: e)
  have "index \<circ> (\<lambda>(e, i). \<lparr>index = i, uri = trim (textContent e)\<rparr>) = snd"
    by (simp add: fun_eq_iff)
  then have "map index (extractNamespaces doc) = map snd ?zs"
    by (simp add: e)
  also have "\<dots> = [0 ..< length ?us]" by simp
  finally show "map index (extractNamespaces doc) = [0 ..< length (extractNamespaces doc)]"
    by (simp only: len)
qed

text \<open>
  C9 as stated fails when a selected element has no text but white space: it gets no
  entry, and the entry after it keeps the index 1 at position 0 of the returned list.
\<close>

theorem extractNamespaces_entries_counterexample:
  "length (selectUris None None docUris) = 2
   \<and> extractNamespaces docUris = [\<lparr>index = 1, uri = ''http://example.com/UA''\<rparr>]"
  by (simp add: docUris_def extractNamespaces_def addNamespace_def trim_def isWhite_def Let_def)

theorem extractNamespaces_entries_witness:
  "map (\<lambda>e. trim (textContent e)) (selectUris None None docTwoUris) =
       [''http://a.example/'', ''http://b.example/'']
   \<and> extractNamespaces docTwoUris =
       [\<lparr>index = 0, uri = ''http://a.example/''\<rparr>, \<lparr>index = 1, uri = ''http://b.example/''\<rparr>]
   \<and> map index (extractNamespaces docTwoUris) = [0 ..< length (extractNamespaces docTwoUris)]"
proof -
  have a: "\<forall>e \<in> set (selectUris None None docTwoUris). trim (textContent e) \<noteq> []"
    by (simp add: docTwoUris_def trim_def isWhite_def)
  have z: "zip (selectUris None None docTwoUris) [0 ..< length (selectUris None None docTwoUris)] =
        [(Element ''Uri'' [] [Text ''http://a.example/''], 0),
         (Element ''Uri'' [] [Text '' http://b.example/ ''], 1)]"
    by (simp add: docTwoUris_def upt_rec)
  note t = extractNamespaces_entries[of docTwoUris]
  from t have "extractNamespaces docTwoUris =
       [\<lparr>index = 0, uri = ''http://a.example/''\<rparr>, \<lparr>index = 1, uri = ''http://b.example/''\<rparr>]"
    unfolding z by (simp add: trim_def isWhite_def)
  moreover from t a have "map index (extractNamespaces docTwoUris) = [0 ..< length (extractNamespaces docTwoUris)]"
    by blast
  moreover have "map (\<lambda>e. trim (textContent e)) (selectUris None None docTwoUris) =
       [''http://a.example/'', ''http://b.example/'']"
    by (simp add: docTwoUris_def trim_def isWhite_def)
  ultimately show ?thesis by blast
qed

section \<open>The root categories\<close>

lemma categoryNode_browseName: "browseName (categoryNode nds (name, cls)) = name"
  by (simp add: categoryNode_def createCategoryNode_def)

lemma categoryNode_children: "children (categoryNode nds (name, cls)) = members name nds"
  by (simp add: categoryNode_def)

lemma category_names:
  "map browseName (filter (\<lambda>c. children c \<noteq> []) (map (categoryNode nds) T)) =
     filter (\<lambda>name. members name nds \<noteq> []) (map fst T)"
proof (induction T)
  case Nil
  show ?case by simp
next
  case (Cons a T)
  obtain name cls where a: "a = (name, cls)" by (cases a)
  show ?case using Cons by (simp add: a categoryNode_browseName categoryNode_children)
qed

lemma members_iff:
  "k \<in> set (members name nds) \<longleftrightarrow> (\<exists>n. (k, n) \<in> set nds \<and> categoryOf n = Some name)"
  by (force simp: members_def)

lemma categoryOf_None:
  "(categoryOf n = None) = (nodeClass n \<in> {Object, Variable, Method, View})"
  by (cases "nodeClass n") (simp_all add: categoryOf_def)

lemma root_category:
  "c \<in> set (organizeIntoCategories nds) \<Longrightarrow>
     \<exists>name cls. (name, cls) \<in> set categoryTable \<and> c = categoryNode nds (name, cls)
                \<and> members name nds \<noteq> []"
proof -
  assume "c \<in> set (organizeIntoCategories nds)"
  then obtain x where x: "x \<in> set categoryTable" "c = categoryNode nds x" "children c \<noteq> []"
    unfolding organizeIntoCategories_closed by auto
  obtain name cls where "x = (name, cls)" by (cases x)
  then show ?thesis using x by (auto simp: categoryNode_children)
qed

lemma successResult_fields:
  "nodes (successResult q u f) = buildHierarchy (extractNodes q u)"
  "rootNodes (successResult q u f) = organizeIntoCategories (nodes (successResult q u f))"
  by (simp_all add: successResult_def)

lemma parseNodeset_result:
  assumes "fst (parseNodeset p doc f refs) = Inr r"
  shows "rootNodes r = organizeIntoCategories (nodes r) \<and> distinct (map fst (nodes r))"
proof -
  from parseNodeset_Inr[OF assms] obtain u where
    u: "docQuerySelector doc ''parsererror'' = None" "docQuerySelector doc ''UANodeSet'' = Some u"
    by blast
  have "r = successResult (parseAliases (fold addReferenceNodeset refs p) u) u f"
    using assms by (simp add: parseNodeset_ok[OF u])
  then show ?thesis
    by (simp add: successResult_fields nodes_keys extractNodes_distinct)
qed

text \<open>
  C8. The root list of a parse result consists of the category nodes that received at
  least one member, in the fixed order DataTypes, EventTypes, InterfaceTypes, ObjectTypes,
  ReferenceTypes, VariableTypes; every member of a category is a node of class DataType,
  ReferenceType, VariableType or ObjectType, and a node of the node map is in some
  category exactly when it has one of these classes.
\<close>

theorem rootNodes_categories:
  assumes "fst (parseNodeset p doc f refs) = Inr r"
  shows "rootNodes r =
           filter (\<lambda>c. children c \<noteq> []) (map (categoryNode (nodes r)) categoryTable)
         \<and> map browseName (rootNodes r) =
             filter (\<lambda>name. members name (nodes r) \<noteq> [])
               [''DataTypes'', ''EventTypes'', ''InterfaceTypes'', ''ObjectTypes'',
                ''ReferenceTypes'', ''VariableTypes'']
         \<and> (\<forall>c \<in> set (rootNodes r). \<forall>k \<in> set (children c).
               \<exists>n. (k, n) \<in> set (nodes r)
                 \<and> nodeClass n \<in> {DataType, ReferenceType, VariableType, ObjectType})
         \<and> (\<forall>(k, n) \<in> set (nodes r).
               (\<exists>c \<in> set (rootNodes r). k \<in> set (children c))
                 \<longleftrightarrow> nodeClass n \<in> {DataType, ReferenceType, VariableType, ObjectType})"
proof -
  let ?nds = "nodes r"
  from parseNodeset_result[OF assms] have
    rn: "rootNodes r = organizeIntoCategories ?nds" and d: "distinct (map fst ?nds)" by simp_all
  have eq: "rootNodes r = filter (\<lambda>c. children c \<noteq> []) (map (categoryNode ?nds) categoryTable)"
    unfolding rn by (rule organizeIntoCategories_closed)
  have names: "map browseName (rootNodes r) =
             filter (\<lambda>name. members name ?nds \<noteq> [])
               [''DataTypes'', ''EventTypes'', ''InterfaceTypes'', ''ObjectTypes'',
                ''ReferenceTypes'', ''VariableTypes'']"
    unfolding eq category_names by (simp add: categoryTable_def)
  have tc: "nodeClass n \<in> {DataType, ReferenceType, VariableType, ObjectType}"
    if "categoryOf n = Some name" for n name
    using that categoryOf_None[of n] by (cases "nodeClass n") simp_all
  have only: "\<forall>c \<in> set (rootNodes r). \<forall>k \<in> set (children c).
               \<exists>n. (k, n) \<in> set ?nds
                 \<and> nodeClass n \<in> {DataType, ReferenceType, VariableType, ObjectType}"
  proof (intro ballI)
    fix c k assume c: "c \<in> set (rootNodes r)" and k: "k \<in> set (children c)"
    from root_category[OF c[unfolded rn]] obtain name cls where
      "c = categoryNode ?nds (name, cls)" by blast
    then have "k \<in> set (members name ?nds)" using k by (simp add: categoryNode_children)
    then obtain n where "(k, n) \<in> set ?nds" "categoryOf n = Some name"
      using members_iff by blast
    then show "\<exists>n. (k, n) \<in> set ?nds
                 \<and> nodeClass n \<in> {DataType, ReferenceType, VariableType, ObjectType}"
      using tc by blast
  qed
  have every: "\<forall>(k, n) \<in> set ?nds.
               (\<exists>c \<in> set (rootNodes r). k \<in> set (children c))
                 \<longleftrightarrow> nodeClass n \<in> {DataType, ReferenceType, VariableType, ObjectType}"
  proof (intro ballI, clarify)
    fix k n assume kn: "(k, n) \<in> set ?nds"
    have uniq: "n' = n" if "(k, n') \<in> set ?nds" for n'
      using d kn that by (meson eq_key_imp_eq_value)
    show "(\<exists>c \<in> set (rootNodes r). k \<in> set (children c))
                 \<longleftrightarrow> nodeClass n \<in> {DataType, ReferenceType, VariableType, ObjectType}"
    proof
      assume "\<exists>c \<in> set (rootNodes r). k \<in> set (children c)"
      then obtain n' where "(k, n') \<in> set ?nds"
        "nodeClass n' \<in> {DataType, ReferenceType, VariableType, ObjectType}" using only by blast
      then show "nodeClass n \<in> {DataType, ReferenceType, VariableType, ObjectType}"
        using uniq by blast
    next
      assume "nodeClass n \<in> {DataType, ReferenceType, VariableType, ObjectType}"
      then obtain name where name: "categoryOf n = Some name"
        using categoryOf_None[of n] by (cases "categoryOf n") auto
      then have mem: "k \<in> set (members name ?nds)" using kn members_iff by blast
      have "name \<in> fst ` set categoryTable"
        using name by (cases "nodeClass n") (auto simp: categoryOf_def categoryTable_def split: if_splits)
      then obtain cls where cls: "(name, cls) \<in> set categoryTable" by auto
      let ?c = "categoryNode ?nds (name, cls)"
      have "children ?c \<noteq> []" using mem by (auto simp: categoryNode_children)
      then have "?c \<in> set (rootNodes r)" unfolding eq using cls by auto
      moreover have "k \<in> set (children ?c)" using mem by (simp add: categoryNode_children)
      ultimately show "\<exists>c \<in> set (rootNodes r). k \<in> set (children c)" by blast
    qed
  qed
  show ?thesis using eq names only every by blast
qed

theorem rootNodes_categories_witness:
  "\<exists>r. fst (parseNodeset newParser docMixed ''f.xml'' []) = Inr r
     \<and> map fst (nodes r) = [''ns=1;i=2'', ''ns=1;i=1'']
     \<and> map browseName (rootNodes r) = [''DataTypes'']
     \<and> map children (rootNodes r) = [[''ns=1;i=1'']]"
proof -
  let ?r = "\<lparr>fileName = ''f.xml'', namespaceUri = ''http://opcfoundation.org/UA/'', namespaceIndex = 1,
          nodes = [(''ns=1;i=2'', nodeWith ''ns=1;i=2'' Object ''Pump'' []),
                   (''ns=1;i=1'', nodeWith ''ns=1;i=1'' DataType ''Celsius'' [])],
          rootNodes = [(createCategoryNode ''DataTypes'' DataType)\<lparr>children := [''ns=1;i=1'']\<rparr>]\<rparr>"
  have r: "fst (parseNodeset newParser docMixed ''f.xml'' []) = Inr ?r" by (rule docMixed_result)
  from rootNodes_categories[OF r] have
    "map browseName (rootNodes ?r) =
       filter (\<lambda>name. members name (nodes ?r) \<noteq> [])
         [''DataTypes'', ''EventTypes'', ''InterfaceTypes'', ''ObjectTypes'',
          ''ReferenceTypes'', ''VariableTypes'']"
    by blast
  also have "\<dots> = [''DataTypes'']"
    by (simp add: members_def categoryOf_def nodeWith_def)
  finally have names: "map browseName (rootNodes ?r) = [''DataTypes'']" .
  have k: "map fst (nodes ?r) = [''ns=1;i=2'', ''ns=1;i=1'']"
    and c: "map children (rootNodes ?r) = [[''ns=1;i=1'']]"
    by simp_all
  show ?thesis using r k names c by (intro exI[of _ ?r] conjI)
qed

lemma table_objectTypes:
  "(name, cls) \<in> set categoryTable \<Longrightarrow>
   name = ''EventTypes'' \<or> name = ''InterfaceTypes'' \<or> name = ''ObjectTypes'' \<Longrightarrow>
   cls = ObjectType"
  by (auto simp: categoryTable_def)

text \<open>
  C2, amended. An ObjectType node of a parse result is in the EventTypes category exactly
  when its lower-cased browse name contains \<^verbatim>\<open>event\<close> or it carries a
  \<^verbatim>\<open>HasSubtype\<close> reference, forward or backward, whose target contains
  \<^verbatim>\<open>EventType\<close>. It is in exactly one category: the first that matches in the order
  EventTypes, InterfaceTypes, ObjectTypes.
\<close>

theorem objectType_bucket:
  assumes "fst (parseNodeset p doc f refs) = Inr r"
      and "(k, n) \<in> set (nodes r)"
      and "nodeClass n = ObjectType"
  shows "((\<exists>c \<in> set (rootNodes r). browseName c = ''EventTypes'' \<and> k \<in> set (children c))
           \<longleftrightarrow> (includesStr (toLowerCase (browseName n)) ''event''
                \<or> (\<exists>ref \<in> set (references n).
                      referenceType ref = ''HasSubtype''
                      \<and> includesStr (targetNodeId ref) ''EventType'')))
         \<and> (\<exists>!c. c \<in> set (rootNodes r) \<and> k \<in> set (children c))
         \<and> (\<forall>c \<in> set (rootNodes r). k \<in> set (children c) \<longrightarrow>
               browseName c =
                 (if isEventType n then ''EventTypes''
                  else if isInterfaceType n then ''InterfaceTypes'' else ''ObjectTypes''))"
proof -
  let ?nds = "nodes r"
  define bucket where "bucket = (if isEventType n then ''EventTypes''
               else if isInterfaceType n then ''InterfaceTypes'' else ''ObjectTypes'')"
  have bucket3: "bucket = ''EventTypes'' \<or> bucket = ''InterfaceTypes'' \<or> bucket = ''ObjectTypes''"
    by (simp add: bucket_def)
  from parseNodeset_result[OF assms(1)] have
    rn: "rootNodes r = organizeIntoCategories ?nds" and d: "distinct (map fst ?nds)" by simp_all
  have eq: "rootNodes r = filter (\<lambda>c. children c \<noteq> []) (map (categoryNode ?nds) categoryTable)"
    unfolding rn by (rule organizeIntoCategories_closed)
  have cat: "categoryOf n = Some bucket" using assms(3) by (simp add: categoryOf_def bucket_def)
  have uniq: "n' = n" if "(k, n') \<in> set ?nds" for n'
    using d assms(2) that by (meson eq_key_imp_eq_value)
  have mem: "k \<in> set (members name ?nds) \<longleftrightarrow> name = bucket" for name
  proof
    assume "k \<in> set (members name ?nds)"
    then obtain n' where "(k, n') \<in> set ?nds" "categoryOf n' = Some name"
      using members_iff[of k name ?nds] by blast
    then show "name = bucket" using uniq[of n'] cat by simp
  next
    assume "name = bucket"
    then show "k \<in> set (members name ?nds)" using assms(2) cat members_iff[of k name ?nds] by blast
  qed
  have tab: "(bucket, ObjectType) \<in> set categoryTable"
    using bucket3 by (auto simp: categoryTable_def)
  let ?c = "categoryNode ?nds (bucket, ObjectType)"
  have kc: "k \<in> set (children ?c)" using mem[of bucket] by (simp only: categoryNode_children)
  then have "children ?c \<noteq> []" by auto
  then have cin: "?c \<in> set (rootNodes r)" unfolding eq using tab by simp
  have only: "c = ?c" if "c \<in> set (rootNodes r)" "k \<in> set (children c)" for c
  proof -
    from root_category[OF that(1)[unfolded rn]] obtain name cls where
      c: "(name, cls) \<in> set categoryTable" "c = categoryNode ?nds (name, cls)" by blast
    then have "k \<in> set (members name ?nds)" using that(2) by (simp add: categoryNode_children)
    then have nm: "name = bucket" using mem[of name] by simp
    then have "cls = ObjectType" using c(1) bucket3 table_objectTypes[of name cls] by simp
    then show ?thesis using c(2) nm by simp
  qed
  have bn: "browseName ?c = bucket" by (simp only: categoryNode_browseName)
  have one: "\<exists>!c. c \<in> set (rootNodes r) \<and> k \<in> set (children c)"
    using cin kc only by blast
  have name: "\<forall>c \<in> set (rootNodes r). k \<in> set (children c) \<longrightarrow> browseName c = bucket"
  proof (intro ballI impI)
    fix c assume "c \<in> set (rootNodes r)" "k \<in> set (children c)"
    then have "c = ?c" by (rule only)
    then show "browseName c = bucket" using bn by simp
  qed
  have ev: "isEventType n \<longleftrightarrow> (includesStr (toLowerCase (browseName n)) ''event''
                \<or> (\<exists>ref \<in> set (references n).
                      referenceType ref = ''HasSubtype''
                      \<and> includesStr (targetNodeId ref) ''EventType''))"
    by (simp add: isEventType_def)
  have "(\<exists>c \<in> set (rootNodes r). browseName c = ''EventTypes'' \<and> k \<in> set (children c))
          \<longleftrightarrow> isEventType n"
  proof
    assume "\<exists>c \<in> set (rootNodes r). browseName c = ''EventTypes'' \<and> k \<in> set (children c)"
    then obtain c where c: "c \<in> set (rootNodes r)" "browseName c = ''EventTypes''" "k \<in> set (children c)"
      by blast
    then have "bucket = ''EventTypes''" using name by auto
    then show "isEventType n" by (simp add: bucket_def split: if_splits)
  next
    assume "isEventType n"
    then have "browseName ?c = ''EventTypes''" using bn by (simp add: bucket_def)
    then show "\<exists>c \<in> set (rootNodes r). browseName c = ''EventTypes'' \<and> k \<in> set (children c)"
      using cin kc by blast
  qed
  then show ?thesis using one name ev unfolding bucket_def by simp
qed

text \<open>
  C2 as stated fails: \<open>hasEventTypeReference\<close> does not test \<open>isForward\<close>. The node below
  has no \<^verbatim>\<open>event\<close> in its browse name and no backward reference, and is in EventTypes.
\<close>

theorem objectType_bucket_counterexample:
  "fst (parseNodeset newParser docEvent ''f.xml'' []) =
     Inr \<lparr>fileName = ''f.xml'', namespaceUri = ''http://opcfoundation.org/UA/'', namespaceIndex = 1,
          nodes = [(''ns=1;i=1'',
                    nodeWith ''ns=1;i=1'' ObjectType ''Pump''
                      [\<lparr>referenceType = ''HasSubtype'', isForward = True,
                        targetNodeId = ''ns=1;s=AlarmEventType''\<rparr>])],
          rootNodes = [(createCategoryNode ''EventTypes'' ObjectType)\<lparr>children := [''ns=1;i=1'']\<rparr>]\<rparr>
   \<and> \<not> includesStr (toLowerCase ''Pump'') ''event''"
  using docEvent_result by (simp add: toLowerCase_def lowerChar_def)

theorem objectType_bucket_witness:
  "\<exists>r n. fst (parseNodeset newParser docEvent ''f.xml'' []) = Inr r
     \<and> (''ns=1;i=1'', n) \<in> set (nodes r) \<and> nodeClass n = ObjectType
     \<and> (\<exists>ref \<in> set (references n).
           referenceType ref = ''HasSubtype'' \<and> includesStr (targetNodeId ref) ''EventType'')
     \<and> (\<exists>c \<in> set (rootNodes r). browseName c = ''EventTypes'' \<and> ''ns=1;i=1'' \<in> set (children c))
     \<and> (\<exists>!c. c \<in> set (rootNodes r) \<and> ''ns=1;i=1'' \<in> set (children c))"
proof -
  let ?n = "nodeWith ''ns=1;i=1'' ObjectType ''Pump''
              [\<lparr>referenceType = ''HasSubtype'', isForward = True,
                targetNodeId = ''ns=1;s=AlarmEventType''\<rparr>]"
  let ?r = "\<lparr>fileName = ''f.xml'', namespaceUri = ''http://opcfoundation.org/UA/'', namespaceIndex = 1,
          nodes = [(''ns=1;i=1'', ?n)],
          rootNodes = [(createCategoryNode ''EventTypes'' ObjectType)\<lparr>children := [''ns=1;i=1'']\<rparr>]\<rparr>"
  have r: "fst (parseNodeset newParser docEvent ''f.xml'' []) = Inr ?r" by (rule docEvent_result)
  have m: "(''ns=1;i=1'', ?n) \<in> set (nodes ?r)" by simp
  have c: "nodeClass ?n = ObjectType" by (simp add: nodeWith_def)
  have e: "\<exists>ref \<in> set (references ?n).
           referenceType ref = ''HasSubtype'' \<and> includesStr (targetNodeId ref) ''EventType''"
    by (simp add: nodeWith_def)
  note t = objectType_bucket[OF r m c]
  from t e have "\<exists>c \<in> set (rootNodes ?r). browseName c = ''EventTypes'' \<and> ''ns=1;i=1'' \<in> set (children c)"
    by blast
  moreover from t have "\<exists>!c. c \<in> set (rootNodes ?r) \<and> ''ns=1;i=1'' \<in> set (children c)"
    by blast
  ultimately show ?thesis using r m c e by blast
qed

section \<open>What a result owes to earlier calls\<close>

lemma parseNode_erase:
  "map_option eraseResolved (parseNode p e t) = map_option eraseResolved (parseNode q e t)"
  by (simp add: parseNode_def Let_def eraseResolved_def)

lemma parseNode_same_id:
  "parseNode p e t = Some n \<Longrightarrow> parseNode q e t = Some n' \<Longrightarrow> nodeId n = nodeId n'"
  by (auto simp: parseNode_def Let_def split: if_splits)

lemma parseNode_same_None: "(parseNode p e t = None) = (parseNode q e t = None)"
  by (simp add: parseNode_def Let_def)

lemma eraseNodes_update:
  "eraseNodes (AList.update k v m) = AList.update k (eraseResolved v) (eraseNodes m)"
  by (induction m) (auto simp: eraseNodes_def)

lemma addNode_erase:
  assumes "eraseNodes m = eraseNodes m'"
  shows "eraseNodes (addNode p t e m) = eraseNodes (addNode q t e m')"
proof (cases "parseNode p e t")
  case None
  then have "parseNode q e t = None" using parseNode_same_None[of p e t q] by simp
  then show ?thesis using None assms by (simp add: addNode_def)
next
  case (Some n)
  then obtain n' where n': "parseNode q e t = Some n'"
    using parseNode_same_None[of p e t q] by (cases "parseNode q e t") auto
  have "eraseResolved n = eraseResolved n'" using parseNode_erase[of p e t q] Some n' by simp
  moreover have "nodeId n = nodeId n'" using Some n' by (rule parseNode_same_id)
  ultimately show ?thesis using Some n' assms by (simp add: addNode_def eraseNodes_update)
qed

lemma fold_addNode_erase:
  "eraseNodes m = eraseNodes m' \<Longrightarrow>
   eraseNodes (fold (\<lambda>(t, e). addNode p t e) es m) = eraseNodes (fold (\<lambda>(t, e). addNode q t e) es m')"
proof (induction es arbitrary: m m')
  case Nil
  then show ?case by simp
next
  case (Cons x es)
  obtain t e where x: "x = (t, e)" by (cases x)
  show ?case using Cons.IH[OF addNode_erase[OF Cons.prems, of p t e q]] by (simp add: x)
qed

lemma extractNodes_erase: "eraseNodes (extractNodes p u) = eraseNodes (extractNodes q u)"
  unfolding extractNodes_fold by (rule fold_addNode_erase) simp

lemma eraseNodes_keys [simp]: "map fst (eraseNodes m) = map fst m"
  by (induction m) (auto simp: eraseNodes_def)

lemma eraseNodes_keyset [simp]: "fst ` set (eraseNodes m) = fst ` set m"
  using eraseNodes_keys[of m] by (metis list.set_map)

lemma buildHierarchy_closed:
  "distinct (map fst nds) \<Longrightarrow>
   buildHierarchy nds =
     map (\<lambda>(k, A). (k, A\<lparr>children := children A @ hierarchyTargets (fst ` set nds) A\<rparr>)) nds"
proof -
  assume d: "distinct (map fst nds)"
  have l: "(\<lambda>r. referenceType r \<in> {''HasComponent'', ''Organizes'', ''HasProperty''}
             \<and> isForward r \<and> targetNodeId r \<in> fst ` set nds) = linkable (fst ` set nds)"
    by (auto simp: fun_eq_iff linkable_def isHierarchyReference_def)
  show ?thesis
    unfolding buildHierarchy_children[OF d] l hierarchyTargets_def ..
qed

lemma eraseResolved_fields [simp]:
  "children (eraseResolved n) = children n"
  "references (eraseResolved n) = references n"
  "nodeClass (eraseResolved n) = nodeClass n"
  "browseName (eraseResolved n) = browseName n"
  "nodeId (eraseResolved n) = nodeId n"
  by (simp_all add: eraseResolved_def)

lemma eraseResolved_children:
  "eraseResolved (n\<lparr>children := cs\<rparr>) = (eraseResolved n)\<lparr>children := cs\<rparr>"
  by (simp add: eraseResolved_def)

lemma hierarchyTargets_erase: "hierarchyTargets K (eraseResolved A) = hierarchyTargets K A"
  by (simp add: hierarchyTargets_def)

lemma buildHierarchy_erase:
  assumes "distinct (map fst m)"
  shows "eraseNodes (buildHierarchy m) = buildHierarchy (eraseNodes m)"
proof -
  have d': "distinct (map fst (eraseNodes m))" using assms by simp
  have "eraseNodes (map (\<lambda>(k, A). (k, A\<lparr>children := children A @ hierarchyTargets K A\<rparr>)) m) =
        map (\<lambda>(k, A). (k, A\<lparr>children := children A @ hierarchyTargets K A\<rparr>)) (eraseNodes m)" for K
    by (induction m) (auto simp: eraseNodes_def eraseResolved_children hierarchyTargets_erase)
  then show ?thesis
    unfolding buildHierarchy_closed[OF assms] buildHierarchy_closed[OF d'] eraseNodes_keyset .
qed

lemma isEventType_erase: "isEventType (eraseResolved n) = isEventType n"
  by (simp add: isEventType_def)

lemma isInterfaceType_erase: "isInterfaceType (eraseResolved n) = isInterfaceType n"
  by (simp add: isInterfaceType_def)

lemma categoryOf_erase: "categoryOf (eraseResolved n) = categoryOf n"
  by (simp only: categoryOf_def isEventType_erase isInterfaceType_erase eraseResolved_fields)

lemma members_erase: "members name (eraseNodes m) = members name m"
  by (induction m) (auto simp: members_def eraseNodes_def categoryOf_erase)

lemma organizeIntoCategories_erase:
  "organizeIntoCategories (eraseNodes m) = organizeIntoCategories m"
  by (simp add: organizeIntoCategories_closed categoryNode_def members_erase)

lemma successResult_erase:
  "eraseNodeset (successResult p u f) = eraseNodeset (successResult q u f)"
proof -
  have n: "eraseNodes (buildHierarchy (extractNodes p u)) = eraseNodes (buildHierarchy (extractNodes q u))"
    by (simp add: buildHierarchy_erase extractNodes_distinct extractNodes_erase[of p u q])
  have "organizeIntoCategories (buildHierarchy (extractNodes p u)) =
        organizeIntoCategories (eraseNodes (buildHierarchy (extractNodes p u)))"
    by (simp only: organizeIntoCategories_erase)
  also have "\<dots> = organizeIntoCategories (eraseNodes (buildHierarchy (extractNodes q u)))"
    by (simp only: n)
  also have "\<dots> = organizeIntoCategories (buildHierarchy (extractNodes q u))"
    by (simp only: organizeIntoCategories_erase)
  finally have "organizeIntoCategories (buildHierarchy (extractNodes p u)) =
             organizeIntoCategories (buildHierarchy (extractNodes q u))" .
  then show ?thesis using n by (simp add: eraseNodeset_def successResult_def)
qed

text \<open>
  C4, amended. Whether \<open>parseNodeset\<close> fails, the error, and everything in a result
  except the five resolved-name fields of its nodes (dataType, modellingRule, type,
  typeDefinition, derivedFrom) depend on the arguments of the call only: they are the same
  on any two parser instances. The five fields are resolved against the maps of the
  instance, which earlier calls have filled and nothing resets.
\<close>

theorem result_independent_of_instance_up_to_names:
  "map_sum id eraseNodeset (fst (parseNodeset p doc f refs)) =
   map_sum id eraseNodeset (fst (parseNodeset q doc f refs))"
proof (cases "docQuerySelector doc ''parsererror''")
  case (Some pe)
  then show ?thesis by (simp add: parseNodeset_def Let_def)
next
  case None
  show ?thesis
  proof (cases "docQuerySelector doc ''UANodeSet''")
    case n: None
    then show ?thesis using None by (simp add: parseNodeset_def processNodeset_def Let_def)
  next
    case (Some u)
    have "fst (parseNodeset p doc f refs) =
            Inr (successResult (parseAliases (fold addReferenceNodeset refs p) u) u f)"
      and "fst (parseNodeset q doc f refs) =
            Inr (successResult (parseAliases (fold addReferenceNodeset refs q) u) u f)"
      by (simp_all only: parseNodeset_ok[OF None Some] fst_conv)
    then show ?thesis
      using successResult_erase[of "parseAliases (fold addReferenceNodeset refs p) u" u f
                                   "parseAliases (fold addReferenceNodeset refs q) u"]
      by simp
  qed
qed

text \<open>
  C4 as stated fails: an alias inserted by an earlier call on the same instance changes
  the \<open>dataType\<close> of a node in the result of a later call with the same arguments.
\<close>

theorem result_independent_of_instance_up_to_names_counterexample:
  "fst (parseNodeset (snd (parseNodeset newParser docAlias ''a.xml'' [])) docVariable ''b.xml'' []) =
     Inr \<lparr>fileName = ''b.xml'', namespaceUri = ''http://opcfoundation.org/UA/'', namespaceIndex = 1,
          nodes = [(''ns=1;i=2'',
                    (nodeWith ''ns=1;i=2'' Variable ''Level'' [])\<lparr>dataType := Some ''Int32''\<rparr>)],
          rootNodes = []\<rparr>
   \<and> fst (parseNodeset newParser docVariable ''b.xml'' []) =
     Inr \<lparr>fileName = ''b.xml'', namespaceUri = ''http://opcfoundation.org/UA/'', namespaceIndex = 1,
          nodes = [(''ns=1;i=2'',
                    (nodeWith ''ns=1;i=2'' Variable ''Level'' [])\<lparr>dataType := Some ''i=6''\<rparr>)],
          rootNodes = []\<rparr>
   \<and> fst (parseNodeset (snd (parseNodeset newParser docAlias ''a.xml'' [])) docVariable ''b.xml'' [])
       \<noteq> fst (parseNodeset newParser docVariable ''b.xml'' [])"
  using docVariable_used docVariable_fresh by (simp add: nodeWith_def)

theorem result_independent_of_instance_up_to_names_witness:
  "map_sum id eraseNodeset
     (fst (parseNodeset (snd (parseNodeset newParser docAlias ''a.xml'' [])) docVariable ''b.xml'' [])) =
     Inr \<lparr>fileName = ''b.xml'', namespaceUri = ''http://opcfoundation.org/UA/'', namespaceIndex = 1,
          nodes = [(''ns=1;i=2'', nodeWith ''ns=1;i=2'' Variable ''Level'' [])],
          rootNodes = []\<rparr>"
proof -
  have "map_sum id eraseNodeset (fst (parseNodeset newParser docVariable ''b.xml'' [])) =
     Inr \<lparr>fileName = ''b.xml'', namespaceUri = ''http://opcfoundation.org/UA/'', namespaceIndex = 1,
          nodes = [(''ns=1;i=2'', nodeWith ''ns=1;i=2'' Variable ''Level'' [])],
          rootNodes = []\<rparr>"
    unfolding docVariable_fresh
    by (simp add: eraseNodeset_def eraseNodes_def eraseResolved_def nodeWith_def)
  then show ?thesis
    using result_independent_of_instance_up_to_names
            [of "snd (parseNodeset newParser docAlias ''a.xml'' [])" docVariable "''b.xml''" "[]" newParser]
    by (simp only:)
qed

end
